theory Spec2Isabelle
  imports Complex_Main
begin

section \<open>Data model\<close>

text \<open>
  The polling and alert engine of \<^verbatim>\<open>backend/app/services/scheduler.py\<close> and the
  fan command builder of \<^verbatim>\<open>backend/app/services/ipmi.py\<close>.

  Conventions of the embedding.
  \<^item> Temperatures and zone thresholds are Python numbers (a \<^verbatim>\<open>float\<close> parsed from sensor
    text, JSON numbers in the zone table). They are modelled as exact rationals: Python
    compares an \<^verbatim>\<open>int\<close> and a finite \<^verbatim>\<open>float\<close> by value. Non-finite floats are
    outside the model.
  \<^item> RPM values are Python integers, modelled as \<open>int\<close>.
  \<^item> A zone is the JSON object \<^verbatim>\<open>{"temp_threshold": t, "target_rpm": r}\<close>; a key that is
    absent is \<open>None\<close> and read with the default of \<^verbatim>\<open>zone.get(key, 0)\<close>.
\<close>

record zone =
  temp_threshold :: "rat option"
  target_rpm :: "int option"

record fan_defaults =
  zones :: "zone list option"

record fan_override =
  fan_identifier :: string
  min_rpm :: "int option"

record server =
  server_id :: int
  vendor :: string
  fan_defaults :: "fan_defaults option"
  fan_overrides :: "fan_override list"
  notification_channel_ids :: "int list option"
  alert_config :: "(string \<Rightarrow> bool option) option"
  offline_alert_threshold_minutes :: int
  last_successful_poll :: "int option"
  created_at :: int

section \<open>Fan curve\<close>

text \<open>\<^verbatim>\<open>zone.get('temp_threshold', 0)\<close> and \<^verbatim>\<open>zone.get('target_rpm', 0)\<close>.\<close>

definition zone_threshold :: "zone \<Rightarrow> rat" where
  "zone_threshold z = (case temp_threshold z of None \<Rightarrow> 0 | Some t \<Rightarrow> t)"

definition zone_rpm :: "zone \<Rightarrow> int" where
  "zone_rpm z = (case target_rpm z of None \<Rightarrow> 0 | Some r \<Rightarrow> r)"

text \<open>
  \<^verbatim>\<open>list.index(x)\<close>: the position of the first element equal to \<open>x\<close>. It is only called
  on elements of the list, so the \<^verbatim>\<open>ValueError\<close> of a missing element cannot occur; the
  model returns the length there.
\<close>

fun index_of :: "'a \<Rightarrow> 'a list \<Rightarrow> nat" where
  "index_of x [] = 0"
| "index_of x (y # ys) = (if x = y then 0 else Suc (index_of x ys))"

text \<open>
  \<^verbatim>\<open>server.fan_defaults.get('zones', [])\<close> behind the guard
  \<^verbatim>\<open>if not server.fan_defaults or 'zones' not in server.fan_defaults\<close>: \<open>None\<close> when the
  guard returns early.
\<close>

definition configured_zones :: "server \<Rightarrow> zone list option" where
  "configured_zones s =
     (case fan_defaults s of None \<Rightarrow> None | Some d \<Rightarrow> zones d)"

text \<open>\<^verbatim>\<open>sorted(zones, key=lambda z: z.get('temp_threshold', 0))\<close>, a stable sort.\<close>

definition sorted_zones :: "zone list \<Rightarrow> zone list" where
  "sorted_zones zs = sort_key zone_threshold zs"

text \<open>
  The \<^verbatim>\<open>for zone in sorted_zones\<close> loop of \<^verbatim>\<open>_calculate_target_rpm\<close>. The first argument
  is the whole sorted list (the loop looks positions up in it), the second the zones still
  to be visited. \<open>None\<close> is the loop ending without \<^verbatim>\<open>break\<close>.
\<close>

fun zone_loop :: "zone list \<Rightarrow> zone list \<Rightarrow> rat \<Rightarrow> int option" where
  "zone_loop all [] cpu_temp = None"
| "zone_loop all (z # rest) cpu_temp =
     (let threshold = zone_threshold z; rpm = zone_rpm z in
      if index_of z all = 0 then
        (if cpu_temp \<le> threshold then Some rpm else zone_loop all rest cpu_temp)
      else
        (let prev_threshold = zone_threshold (all ! (index_of z all - 1)) in
         if prev_threshold < cpu_temp \<and> cpu_temp \<le> threshold then Some rpm
         else zone_loop all rest cpu_temp))"

definition calculate_target_rpm :: "server \<Rightarrow> rat \<Rightarrow> int option" where
  "calculate_target_rpm s cpu_temp =
     (case configured_zones s of
        None \<Rightarrow> None
      | Some zs \<Rightarrow>
          if zs = [] then None
          else
            (let sz = sorted_zones zs in
             let target_rpm = (case zone_loop sz sz cpu_temp of
                                 None \<Rightarrow> zone_rpm (last sz)
                               | Some r \<Rightarrow> r)
             in if target_rpm = 0 then Some 0 else Some target_rpm))"

text \<open>
  \<^verbatim>\<open>_get_first_zone_threshold\<close>: the threshold of the second zone in ascending order,
  \<open>None\<close> with fewer than two zones.
\<close>

definition get_first_zone_threshold :: "server \<Rightarrow> rat option" where
  "get_first_zone_threshold s =
     (case configured_zones s of
        None \<Rightarrow> None
      | Some zs \<Rightarrow>
          if zs = [] \<or> length zs < 2 then None
          else Some (zone_threshold (sorted_zones zs ! 1)))"

text \<open>A server whose only configuration is its zone table.\<close>

definition server_with_zones :: "zone list \<Rightarrow> server" where
  "server_with_zones zs =
     \<lparr> server_id = 1, vendor = ''supermicro'',
       fan_defaults = Some \<lparr> zones = Some zs \<rparr>, fan_overrides = [],
       notification_channel_ids = None, alert_config = None,
       offline_alert_threshold_minutes = 15, last_successful_poll = None,
       created_at = 0 \<rparr>"

section \<open>Python values\<close>

text \<open>Exceptions are values: a function that may raise returns \<open>py_error + 'a\<close>.\<close>

datatype py_error =
    NotImplementedError
  | ValueError
  | OverflowError
  | ZeroDivisionError
  | IndexError
  | IPMICommandError string
  | IntegrityError
  | MultipleResultsFound
  | RuntimeError

subsection \<open>Strings\<close>

text \<open>
  A Python string is modelled as a list of characters with code points below 256.
  \<^verbatim>\<open>str.lower()\<close> maps \<open>A\<close>..\<open>Z\<close> and the upper-case letters of the Latin-1 block to their
  lower-case forms and leaves every other such character unchanged.
\<close>

definition lower_char :: "char \<Rightarrow> char" where
  "lower_char c =
     (let n = (of_char c :: nat) in
      if (65 \<le> n \<and> n \<le> 90) \<or> (192 \<le> n \<and> n \<le> 214) \<or> (216 \<le> n \<and> n \<le> 222)
      then char_of (n + 32) else c)"

definition lower :: "string \<Rightarrow> string" where
  "lower s = map lower_char s"

text \<open>\<^verbatim>\<open>hex(n)\<close>: lower-case digits, no leading zeros, the sign before the prefix.\<close>

definition hex_digit :: "nat \<Rightarrow> char" where
  "hex_digit d = ''0123456789abcdef'' ! d"

fun hex_digits :: "nat \<Rightarrow> string" where
  "hex_digits n =
     (if n < 16 then [hex_digit n] else hex_digits (n div 16) @ [hex_digit (n mod 16)])"

declare hex_digits.simps [simp del]

definition hex :: "int \<Rightarrow> string" where
  "hex n = (if n < 0 then ''-0x'' @ hex_digits (nat (- n)) else ''0x'' @ hex_digits (nat n))"

text \<open>
  \<^verbatim>\<open>str.isspace()\<close> on one character: tab to carriage return, the separators
  \<open>0x1c\<close>..\<open>0x1f\<close>, space, \<open>0x85\<close> and the no-break space. \<^verbatim>\<open>str.strip()\<close> removes
  such characters at both ends.
\<close>

definition is_space :: "char \<Rightarrow> bool" where
  "is_space c =
     (let n = (of_char c :: nat) in
      (9 \<le> n \<and> n \<le> 13) \<or> (28 \<le> n \<and> n \<le> 32) \<or> n = 133 \<or> n = 160)"

definition strip :: "string \<Rightarrow> string" where
  "strip s = rev (dropWhile is_space (rev (dropWhile is_space s)))"

text \<open>\<^verbatim>\<open>s.split(sep)\<close> for a one-character separator: at least one part.\<close>

fun split_on :: "char \<Rightarrow> string \<Rightarrow> string list" where
  "split_on sep [] = [[]]"
| "split_on sep (c # cs) =
     (if c = sep then [] # split_on sep cs
      else (case split_on sep cs of p # ps \<Rightarrow> (c # p) # ps | [] \<Rightarrow> [[c]]))"

text \<open>\<^verbatim>\<open>sub in s\<close>.\<close>

fun starts_with :: "string \<Rightarrow> string \<Rightarrow> bool" where
  "starts_with [] s = True"
| "starts_with (p # ps) [] = False"
| "starts_with (p # ps) (c # cs) = (p = c \<and> starts_with ps cs)"

fun contains :: "string \<Rightarrow> string \<Rightarrow> bool" where
  "contains sub [] = (sub = [])"
| "contains sub (c # cs) = (starts_with sub (c # cs) \<or> contains sub cs)"

text \<open>
  \<^verbatim>\<open>str.upper()\<close>, used only to search a line for \<open>CPU\<close> and \<open>TEMP\<close>. The three
  characters whose upper-case form is not a character of the model (\<open>0xb5\<close>, \<open>0xdf\<close>,
  \<open>0xff\<close>) are left unchanged; none of their upper-case forms contains a letter of the
  two words.
\<close>

definition upper_char :: "char \<Rightarrow> char" where
  "upper_char c =
     (let n = (of_char c :: nat) in
      if (97 \<le> n \<and> n \<le> 122) \<or> (224 \<le> n \<and> n \<le> 246) \<or> (248 \<le> n \<and> n \<le> 254)
      then char_of (n - 32) else c)"

definition upper :: "string \<Rightarrow> string" where
  "upper s = map upper_char s"

text \<open>\<^verbatim>\<open>s.split()\<close>: the maximal runs of characters that are not white space.\<close>

fun split_where :: "(char \<Rightarrow> bool) \<Rightarrow> string \<Rightarrow> string list" where
  "split_where P [] = [[]]"
| "split_where P (c # cs) =
     (if P c then [] # split_where P cs
      else (case split_where P cs of p # ps \<Rightarrow> (c # p) # ps | [] \<Rightarrow> [[c]]))"

definition split_ws :: "string \<Rightarrow> string list" where
  "split_ws s = filter (\<lambda>t. t \<noteq> []) (split_where is_space s)"

definition is_digit :: "char \<Rightarrow> bool" where
  "is_digit c = (let n = (of_char c :: nat) in 48 \<le> n \<and> n \<le> 57)"

subsection \<open>The temperature pattern\<close>

text \<open>
  The regular expression \<^verbatim>\<open>(\d+(?:\.\d+)?)\s*degrees?\s*C\<close> with \<^verbatim>\<open>re.IGNORECASE\<close>.
  \<open>match_degrees s\<close> matches it at the start of \<open>s\<close> and returns group 1 and the
  number of characters matched. Every quantifier is greedy and none can give back a
  character to a successful match: after a shorter digit run, or without the fraction,
  the next character is a digit or the point, where white space or \<open>d\<close> is required; and
  after \<open>degree\<close> without the optional \<open>s\<close> the next character is that \<open>s\<close>, where
  white space or \<open>C\<close> is required.
\<close>

definition match_degrees :: "string \<Rightarrow> (string \<times> nat) option" where
  "match_degrees s =
     (let ds = takeWhile is_digit s in
      if ds = [] then None
      else
        (let r1 = drop (length ds) s;
             fs = (case r1 of [] \<Rightarrow> []
                   | c # t \<Rightarrow> if c = CHR ''.'' then takeWhile is_digit t else []);
             num = (if fs = [] then ds else ds @ ''.'' @ fs);
             r2 = drop (length num) s;
             ws1 = takeWhile is_space r2;
             r3 = drop (length ws1) r2
         in if lower (take 6 r3) \<noteq> ''degree'' then None
            else
              (let r4 = drop 6 r3;
                   opt_s = (case r4 of [] \<Rightarrow> 0
                            | c # t \<Rightarrow> if lower_char c = CHR ''s'' then 1 else (0::nat));
                   r5 = drop opt_s r4;
                   ws2 = takeWhile is_space r5;
                   r6 = drop (length ws2) r5
               in (case r6 of
                     [] \<Rightarrow> None
                   | c # t \<Rightarrow>
                       if lower_char c = CHR ''c''
                       then Some (num, length num + length ws1 + 6 + opt_s + length ws2 + 1)
                       else None))))"

text \<open>\<^verbatim>\<open>re.search\<close>: group 1 of the leftmost match.\<close>

fun search_degrees :: "string \<Rightarrow> string option" where
  "search_degrees [] = None"
| "search_degrees (c # cs) =
     (case match_degrees (c # cs) of
        Some (g, n) \<Rightarrow> Some g
      | None \<Rightarrow> search_degrees cs)"

text \<open>
  \<^verbatim>\<open>re.findall\<close>: group 1 of every match, scanning from the left and resuming after each
  match. The first argument counts the characters of the last match still to be skipped.
\<close>

fun findall_from :: "nat \<Rightarrow> string \<Rightarrow> string list" where
  "findall_from k [] = []"
| "findall_from (Suc k) (c # cs) = findall_from k cs"
| "findall_from 0 (c # cs) =
     (case match_degrees (c # cs) of
        Some (g, n) \<Rightarrow> g # findall_from (n - 1) cs
      | None \<Rightarrow> findall_from 0 cs)"

definition findall_degrees :: "string \<Rightarrow> string list" where
  "findall_degrees s = findall_from 0 s"

subsection \<open>Binary64 arithmetic\<close>

text \<open>
  The fan command builder computes with Python floats. A finite float is the rational it
  denotes; an operation rounds the exact result to the nearest binary64 value, ties to
  even. \<open>float_exponent x\<close> is the binary exponent of a positive \<open>x\<close>, the integer \<open>e\<close>
  with \<open>2^e \<le> x < 2^(e+1)\<close>.
\<close>

function float_exponent :: "rat \<Rightarrow> int" where
  "float_exponent x =
     (if x \<le> 0 then 0
      else if 2 \<le> x then float_exponent (x / 2) + 1
      else if x < 1 then float_exponent (x * 2) - 1
      else 0)"
  by pat_completeness auto
termination
proof (relation "measure (\<lambda>x. nat (2 * \<lceil>1 / x\<rceil> + \<lfloor>x\<rfloor>))")
  show "wf (measure (\<lambda>x::rat. nat (2 * \<lceil>1 / x\<rceil> + \<lfloor>x\<rfloor>)))" by simp
next
  fix x :: rat
  assume a: "\<not> x \<le> 0" "2 \<le> x"
  have c1: "\<lceil>1 / (x / 2)\<rceil> = 1" using a by (simp add: ceiling_eq_iff)
  have c2: "\<lceil>1 / x\<rceil> = 1" using a by (simp add: ceiling_eq_iff)
  have "x / 2 \<le> x - 1" using a by simp
  then have "\<lfloor>x / 2\<rfloor> \<le> \<lfloor>x - 1\<rfloor>" by (rule floor_mono)
  then have f: "\<lfloor>x / 2\<rfloor> < \<lfloor>x\<rfloor>" by simp
  have g: "0 \<le> \<lfloor>x / 2\<rfloor>" using a by simp
  have "nat (2 * \<lceil>1 / (x / 2)\<rceil> + \<lfloor>x / 2\<rfloor>) < nat (2 * \<lceil>1 / x\<rceil> + \<lfloor>x\<rfloor>)"
    unfolding c1 c2 using f g by linarith
  then show "(x / 2, x) \<in> measure (\<lambda>x. nat (2 * \<lceil>1 / x\<rceil> + \<lfloor>x\<rfloor>))"
    by (simp only: in_measure)
next
  fix x :: rat
  assume a: "\<not> x \<le> 0" "\<not> 2 \<le> x" "x < 1"
  have fx: "\<lfloor>x\<rfloor> = 0" using a by (simp add: floor_eq_iff)
  have "1 < 1 / x" using a by simp
  then have "(1::int) < \<lceil>1 / x\<rceil>" by (simp add: less_ceiling_iff)
  then have c: "2 \<le> \<lceil>1 / x\<rceil>" by linarith
  have "nat (2 * \<lceil>1 / (x * 2)\<rceil> + \<lfloor>x * 2\<rfloor>) < nat (2 * \<lceil>1 / x\<rceil> + \<lfloor>x\<rfloor>)"
  proof (cases "x * 2 < 1")
    case True
    then have f2: "\<lfloor>x * 2\<rfloor> = 0" using a by (simp add: floor_eq_iff)
    have "1 / (x * 2) \<le> of_int \<lceil>1 / x\<rceil> / 2"
      using a le_of_int_ceiling [of "1 / x"] by (simp add: field_simps)
    also have "\<dots> \<le> of_int ((\<lceil>1 / x\<rceil> + 1) div 2)"
    proof -
      have "\<lceil>1 / x\<rceil> \<le> 2 * ((\<lceil>1 / x\<rceil> + 1) div 2)" by presburger
      then have "(of_int \<lceil>1 / x\<rceil> :: rat) \<le> of_int (2 * ((\<lceil>1 / x\<rceil> + 1) div 2))"
        by (simp only: of_int_le_iff)
      then show ?thesis by simp
    qed
    finally have h: "\<lceil>1 / (x * 2)\<rceil> \<le> (\<lceil>1 / x\<rceil> + 1) div 2"
      by (simp only: ceiling_le_iff)
    have "2 * \<lceil>1 / (x * 2)\<rceil> \<le> \<lceil>1 / x\<rceil> + 1" using h by linarith
    then show ?thesis unfolding f2 fx using c by linarith
  next
    case False
    then have f2: "\<lfloor>x * 2\<rfloor> = 1" using a by (simp add: floor_eq_iff)
    have c2: "\<lceil>1 / (x * 2)\<rceil> = 1"
      using a False by (simp add: ceiling_eq_iff field_simps)
    show ?thesis unfolding f2 fx c2 using c by linarith
  qed
  then show "(x * 2, x) \<in> measure (\<lambda>x. nat (2 * \<lceil>1 / x\<rceil> + \<lfloor>x\<rfloor>))"
    by (simp only: in_measure)
qed

declare float_exponent.simps [simp del]

text \<open>Rounding to the nearest integer, a tie to the even neighbour.\<close>

definition round_half_even :: "rat \<Rightarrow> int" where
  "round_half_even q =
     (if q - of_int \<lfloor>q\<rfloor> < 1 / 2 then \<lfloor>q\<rfloor>
      else if 1 / 2 < q - of_int \<lfloor>q\<rfloor> then \<lfloor>q\<rfloor> + 1
      else if even \<lfloor>q\<rfloor> then \<lfloor>q\<rfloor> else \<lfloor>q\<rfloor> + 1)"

text \<open>\<open>scale2 x k\<close> is \<open>x\<close> times two to the power \<open>k\<close>, for an integer \<open>k\<close>.\<close>

definition scale2 :: "rat \<Rightarrow> int \<Rightarrow> rat" where
  "scale2 x k = (if 0 \<le> k then x * 2 ^ nat k else x / 2 ^ nat (- k))"

text \<open>
  \<open>round_at a e\<close> rounds a positive \<open>a\<close> to a multiple of \<open>2^(e - 52)\<close>, the spacing of
  the binary64 values with binary exponent \<open>e\<close>.
\<close>

definition round_at :: "rat \<Rightarrow> int \<Rightarrow> rat" where
  "round_at a e = scale2 (of_int (round_half_even (scale2 a (52 - e)))) (e - 52)"

text \<open>
  The binary64 value nearest to \<open>x\<close>: 53 significant bits, the spacing of the subnormal
  range below \<open>2^-1022\<close>. The result is meaningful below the overflow threshold, which
  the operations test before they round.
\<close>

definition round_double :: "rat \<Rightarrow> rat" where
  "round_double x =
     (if x = 0 then 0
      else sgn x * round_at \<bar>x\<bar> (max (float_exponent \<bar>x\<bar>) (- 1022)))"

text \<open>From this magnitude on a result rounds to infinity.\<close>

definition overflow_threshold :: rat where
  "overflow_threshold = 2 ^ 1024 - 2 ^ 970"

text \<open>
  \<^verbatim>\<open>a / b\<close> on two Python integers: the correctly rounded quotient;
  \<^verbatim>\<open>OverflowError\<close> when it is too large for a float.
\<close>

definition true_divide :: "int \<Rightarrow> int \<Rightarrow> py_error + rat" where
  "true_divide a b =
     (if b = 0 then Inl ZeroDivisionError
      else if overflow_threshold \<le> \<bar>of_int a / of_int b\<bar> then Inl OverflowError
      else Inr (round_double (of_int a / of_int b)))"

text \<open>
  \<^verbatim>\<open>x * n\<close> on a finite float and a small integer: \<open>None\<close> is an infinite product, which
  raises nothing by itself.
\<close>

definition float_mul :: "rat \<Rightarrow> rat \<Rightarrow> rat option" where
  "float_mul x y =
     (if overflow_threshold \<le> \<bar>x * y\<bar> then None else Some (round_double (x * y)))"

text \<open>\<^verbatim>\<open>int(x)\<close> on a float: truncation toward zero; \<^verbatim>\<open>OverflowError\<close> on infinity.\<close>

definition int_of_float :: "rat option \<Rightarrow> py_error + int" where
  "int_of_float x =
     (case x of
        None \<Rightarrow> Inl OverflowError
      | Some v \<Rightarrow> Inr (if 0 \<le> v then \<lfloor>v\<rfloor> else \<lceil>v\<rceil>))"

section \<open>Fan command builder\<close>

text \<open>
  The \<^verbatim>\<open>speed_byte\<close> of \<^verbatim>\<open>_build_fan_command\<close>, in the order of its
  \<^verbatim>\<open>if\<close>/\<^verbatim>\<open>elif\<close> chain. \<open>0x64 = 100\<close>, \<open>0x18 = 24\<close>, \<open>0x30 = 48\<close>.
  \<open>rpm_percentage\<close> is \<^verbatim>\<open>min(100, int((target_rpm / 5000) * 100))\<close> and
  \<open>percentage_byte\<close> is \<^verbatim>\<open>min(0x64, int((percentage / 100) * 0x64))\<close>.
\<close>

definition rpm_percentage :: "int \<Rightarrow> py_error + int" where
  "rpm_percentage rpm =
     (case true_divide rpm 5000 of
        Inl e \<Rightarrow> Inl e
      | Inr q \<Rightarrow>
         (case int_of_float (float_mul q 100) of
            Inl e \<Rightarrow> Inl e
          | Inr p \<Rightarrow> Inr (min 100 p)))"

definition percentage_byte :: "int \<Rightarrow> py_error + int" where
  "percentage_byte percentage =
     (case true_divide percentage 100 of
        Inl e \<Rightarrow> Inl e
      | Inr q \<Rightarrow>
         (case int_of_float (float_mul q 100) of
            Inl e \<Rightarrow> Inl e
          | Inr b \<Rightarrow> Inr (min 100 b)))"

definition speed_byte :: "int \<Rightarrow> py_error + int" where
  "speed_byte rpm =
     (if rpm = 0 then Inr 100
      else if rpm \<le> 2000 then Inr 24
      else if rpm \<le> 3500 then Inr 48
      else
        (case rpm_percentage rpm of
           Inl e \<Rightarrow> Inl e
         | Inr percentage \<Rightarrow> percentage_byte percentage))"

text \<open>
  \<^verbatim>\<open>_build_fan_command(vendor, target_rpm, fan_identifier)\<close>. The zone selector is
  \<open>0x01\<close> for all fans (no fan identifier) and \<open>0x00\<close> for a named fan.
\<close>

definition build_fan_command :: "string \<Rightarrow> int \<Rightarrow> string option \<Rightarrow> py_error + string" where
  "build_fan_command vendor_tag rpm fan_id =
     (let v = lower vendor_tag in
      if v = ''supermicro'' then
        (case speed_byte rpm of
           Inl e \<Rightarrow> Inl e
         | Inr b \<Rightarrow>
            (let speed_hex = hex b;
                 zone = (if fan_id = None then 1 else 0)
             in Inr (''0x30 0x70 0x66 '' @ hex zone @ '' 0x00 0x00 '' @ speed_hex)))
      else if v = ''dell'' then Inl NotImplementedError
      else if v = ''hp'' then Inl NotImplementedError
      else Inl ValueError)"

section \<open>Alert state store\<close>

text \<open>
  A row of the table \<^verbatim>\<open>active_alerts\<close> (\<^verbatim>\<open>models/alert.py\<close>). Timestamps are instants on
  an integer time line (microseconds).
\<close>

record active_alert =
  alert_server_id :: int
  alert_type :: string
  message :: string
  first_triggered_at :: int
  last_updated_at :: int
  cleared_at :: "int option"
  cleared_by :: "string option"

text \<open>A row of the table of notification channels: only what the dispatcher selects on.\<close>

record channel =
  channel_id :: int
  enabled :: bool

text \<open>
  One invocation of the dispatcher \<^verbatim>\<open>_send_alert_notification\<close>: the message it formats
  for one transition and the channels it attempts, the enabled channels among those the
  entity references (none when the entity references no channel). The delivery to each
  channel, whose failure is logged and swallowed, is outside the model.
\<close>

record notification =
  note_server_id :: int
  note_alert_type :: string
  note_message :: string
  note_is_cleared :: bool
  note_targets :: "int list"

text \<open>
  The state the scheduler acts on: the alert table, the channel table, and three logs in
  call order: dispatcher invocations, fan commands (\<^verbatim>\<open>set_fan_speed\<close> calls, with the
  rpm and the fan identifier) and telemetry queries (by client call name).
\<close>

record world =
  alerts :: "active_alert list"
  channels :: "channel list"
  notifications :: "notification list"
  fan_commands :: "(int \<times> string option) list"
  queries :: "string list"

text \<open>
  The \<^verbatim>\<open>select(ActiveAlert).where(server_id == .., alert_type == .., cleared_at IS NULL)\<close>
  of both operations.
\<close>

definition is_live :: "int \<Rightarrow> string \<Rightarrow> active_alert \<Rightarrow> bool" where
  "is_live sid ty a \<longleftrightarrow> alert_server_id a = sid \<and> alert_type a = ty \<and> cleared_at a = None"

definition live_alerts :: "world \<Rightarrow> int \<Rightarrow> string \<Rightarrow> active_alert list" where
  "live_alerts w sid ty = filter (is_live sid ty) (alerts w)"

text \<open>\<^verbatim>\<open>result.scalar_one_or_none()\<close>: more than one row raises.\<close>

definition scalar_one_or_none :: "'a list \<Rightarrow> py_error + 'a option" where
  "scalar_one_or_none rows =
     (case rows of
        [] \<Rightarrow> Inr None
      | [r] \<Rightarrow> Inr (Some r)
      | _ \<Rightarrow> Inl MultipleResultsFound)"

text \<open>
  The constraint \<^verbatim>\<open>UniqueConstraint("server_id", "alert_type")\<close> of the table: an insert
  of a row whose pair is already present, in a live or a cleared row, fails at commit.
\<close>

definition violates_unique :: "active_alert list \<Rightarrow> int \<Rightarrow> string \<Rightarrow> bool" where
  "violates_unique rows sid ty \<longleftrightarrow>
     (\<exists>a \<in> set rows. alert_server_id a = sid \<and> alert_type a = ty)"

definition send_alert_notification ::
    "server \<Rightarrow> string \<Rightarrow> string \<Rightarrow> bool \<Rightarrow> world \<Rightarrow> world" where
  "send_alert_notification s ty msg is_cleared w =
     (let targets =
        (case notification_channel_ids s of
           None \<Rightarrow> []
         | Some ids \<Rightarrow>
             map channel_id (filter (\<lambda>c. channel_id c \<in> set ids \<and> enabled c) (channels w)))
      in w\<lparr>notifications := notifications w @
            [\<lparr>note_server_id = server_id s, note_alert_type = ty, note_message = msg,
              note_is_cleared = is_cleared, note_targets = targets\<rparr>]\<rparr>)"

text \<open>
  \<^verbatim>\<open>_activate_alert(session, server, alert_type, message)\<close> at the instant \<open>now\<close> (the
  clock reads of one call are identified).
\<close>

definition activate_alert ::
    "int \<Rightarrow> server \<Rightarrow> string \<Rightarrow> string \<Rightarrow> world \<Rightarrow> py_error + world" where
  "activate_alert now s ty msg w =
     (case scalar_one_or_none (live_alerts w (server_id s) ty) of
        Inl e \<Rightarrow> Inl e
      | Inr (Some existing_alert) \<Rightarrow>
          Inr (w\<lparr>alerts := map (\<lambda>a. if is_live (server_id s) ty a
                                       then a\<lparr>last_updated_at := now\<rparr> else a) (alerts w)\<rparr>)
      | Inr None \<Rightarrow>
          if violates_unique (alerts w) (server_id s) ty then Inl IntegrityError
          else
            Inr (send_alert_notification s ty msg False
                   (w\<lparr>alerts := alerts w @
                        [\<lparr>alert_server_id = server_id s, alert_type = ty, message = msg,
                          first_triggered_at = now, last_updated_at = now,
                          cleared_at = None, cleared_by = None\<rparr>]\<rparr>)))"

text \<open>\<^verbatim>\<open>_clear_alert_if_active(session, server, alert_type, cleared_by)\<close> at the instant \<open>now\<close>.\<close>

definition clear_alert_if_active ::
    "int \<Rightarrow> server \<Rightarrow> string \<Rightarrow> string \<Rightarrow> world \<Rightarrow> py_error + world" where
  "clear_alert_if_active now s ty actor w =
     (case scalar_one_or_none (live_alerts w (server_id s) ty) of
        Inl e \<Rightarrow> Inl e
      | Inr None \<Rightarrow> Inr w
      | Inr (Some active) \<Rightarrow>
          Inr (send_alert_notification s ty (message active) True
                 (w\<lparr>alerts := map (\<lambda>a. if is_live (server_id s) ty a
                                         then a\<lparr>cleared_at := Some now, cleared_by := Some actor,
                                                last_updated_at := now\<rparr>
                                         else a) (alerts w)\<rparr>)))"

text \<open>
  A sequence of calls on one entity and kind, each at its own instant. Every call is a
  separate run of a job; one that raises leaves the state as it was and the next call
  still happens.
\<close>

datatype alert_call = Activate int string | Clear int string

fun run_call :: "server \<Rightarrow> string \<Rightarrow> alert_call \<Rightarrow> world \<Rightarrow> py_error + world" where
  "run_call s ty (Activate now msg) w = activate_alert now s ty msg w"
| "run_call s ty (Clear now actor) w = clear_alert_if_active now s ty actor w"

fun run_calls :: "server \<Rightarrow> string \<Rightarrow> alert_call list \<Rightarrow> world \<Rightarrow> world" where
  "run_calls s ty [] w = w"
| "run_calls s ty (c # cs) w =
     (case run_call s ty c w of Inl e \<Rightarrow> run_calls s ty cs w | Inr w' \<Rightarrow> run_calls s ty cs w')"

definition empty_world :: world where
  "empty_world = \<lparr>alerts = [], channels = [], notifications = [], fan_commands = [], queries = []\<rparr>"

section \<open>Telemetry client\<close>

text \<open>
  What the management controller answers in one cycle: for each \<^verbatim>\<open>ipmitool\<close>
  invocation of \<^verbatim>\<open>IPMIClient._run\<close> either its output or the exception it raises
  (\<^verbatim>\<open>IPMICommandError\<close> on a non-zero exit status, anything else from the transport).
\<close>

record ipmi_client =
  sdr_temperature :: "py_error + string"
  sdr_fan :: "py_error + string"
  sdr_memory :: "py_error + string"
  sdr_power_supply :: "py_error + string"
  sdr_physical_security :: "py_error + string"
  sdr_get_chassis_intrusion :: "py_error + string"
  sel_elist :: "py_error + string"
  sdr_voltage :: "py_error + string"
  raw :: "string \<Rightarrow> py_error + string"

text \<open>
  The \<^verbatim>\<open>try: return await self._run(..) except IPMICommandError: return ""\<close> of the
  status queries: only \<^verbatim>\<open>IPMICommandError\<close> becomes the empty answer.
\<close>

definition or_empty :: "py_error + string \<Rightarrow> py_error + string" where
  "or_empty r = (case r of Inl (IPMICommandError m) \<Rightarrow> Inr [] | _ \<Rightarrow> r)"

definition query_memory_status :: "ipmi_client \<Rightarrow> py_error + string" where
  "query_memory_status c = or_empty (sdr_memory c)"

definition query_power_supply_status :: "ipmi_client \<Rightarrow> py_error + string" where
  "query_power_supply_status c = or_empty (sdr_power_supply c)"

definition query_chassis_intrusion :: "ipmi_client \<Rightarrow> py_error + string" where
  "query_chassis_intrusion c =
     (case sdr_physical_security c of
        Inl (IPMICommandError m) \<Rightarrow> or_empty (sdr_get_chassis_intrusion c)
      | r \<Rightarrow> r)"

definition query_system_events :: "ipmi_client \<Rightarrow> py_error + string" where
  "query_system_events c = or_empty (sel_elist c)"

definition query_voltage_status :: "ipmi_client \<Rightarrow> py_error + string" where
  "query_voltage_status c = or_empty (sdr_voltage c)"

section \<open>Alert evaluation\<close>

text \<open>\<^verbatim>\<open>_is_alert_enabled\<close>: false without a configuration or without the key.\<close>

definition is_alert_enabled :: "server \<Rightarrow> string \<Rightarrow> bool" where
  "is_alert_enabled s kind =
     (case alert_config s of
        None \<Rightarrow> False
      | Some cfg \<Rightarrow> (case cfg kind of None \<Rightarrow> False | Some b \<Rightarrow> b))"

text \<open>\<^verbatim>\<open>not server.notification_channel_ids\<close>: no list or an empty one.\<close>

definition no_channels :: "server \<Rightarrow> bool" where
  "no_channels s \<longleftrightarrow>
     (case notification_channel_ids s of None \<Rightarrow> True | Some ids \<Rightarrow> ids = [])"

text \<open>
  \<^verbatim>\<open>_has_errors\<close>: the loop over the stripped lines. The status is the third
  pipe-separated field; the inner loop over the indicators and the statement after it
  both return \<^verbatim>\<open>True\<close>.
\<close>

fun has_errors_lines :: "string list \<Rightarrow> string list \<Rightarrow> bool" where
  "has_errors_lines [] error_indicators = False"
| "has_errors_lines (l # ls) error_indicators =
     (let line = strip l in
      if line = [] then has_errors_lines ls error_indicators
      else
        (let parts = map strip (split_on (CHR ''|'') line) in
         if 3 \<le> length parts then
           (let status = lower (parts ! 2) in
            if status \<noteq> ''ok'' then
              (if list_ex (\<lambda>indicator. contains indicator status) error_indicators
               then True else True)
            else has_errors_lines ls error_indicators)
         else has_errors_lines ls error_indicators))"

definition has_errors :: "string \<Rightarrow> string list \<Rightarrow> bool" where
  "has_errors status_output error_indicators =
     (if status_output = [] then False
      else has_errors_lines (split_on (CHR 0x0A) (strip status_output)) error_indicators)"

definition has_intrusion :: "string \<Rightarrow> bool" where
  "has_intrusion intrusion_output =
     (if intrusion_output = [] then False
      else list_ex (\<lambda>keyword. contains keyword (lower intrusion_output))
             [''intrusion'', ''chassis open'', ''ns'', ''nc'', ''cr''])"

definition has_critical_events :: "string \<Rightarrow> bool" where
  "has_critical_events events_output =
     (if events_output = [] then False
      else list_ex (\<lambda>indicator. contains indicator (lower events_output))
             [''critical'', ''non-recoverable'', ''nr'', ''cr'', ''error''])"

text \<open>
  One of the five blocks of \<^verbatim>\<open>_check_alerts\<close>, which differ in the kind, the client
  function, the detector and the message prefix only. The query is logged when it is
  issued. Whatever the \<^verbatim>\<open>try\<close> body raises (the query, the activation, the clearing)
  is caught by \<^verbatim>\<open>except Exception\<close> and logged: the state is then what it was after the
  query. \<open>status \<noteq> [] \<and> detect status\<close> is the truth value of
  \<^verbatim>\<open>status and detect(status)\<close>.
\<close>

definition alert_check ::
    "int \<Rightarrow> server \<Rightarrow> string \<Rightarrow> string \<Rightarrow> (py_error + string) \<Rightarrow> (string \<Rightarrow> bool) \<Rightarrow> string
       \<Rightarrow> world \<Rightarrow> world" where
  "alert_check now s kind qname answer detect prefix w =
     (if is_alert_enabled s kind then
        (let w1 = w\<lparr>queries := queries w @ [qname]\<rparr> in
         case answer of
           Inl e \<Rightarrow> w1
         | Inr status \<Rightarrow>
             (case (if status \<noteq> [] \<and> detect status
                    then activate_alert now s kind (prefix @ [CHR 0x0A] @ status) w1
                    else clear_alert_if_active now s kind ''auto'' w1) of
                Inl e \<Rightarrow> w1
              | Inr w2 \<Rightarrow> w2))
      else w)"

definition sdr_indicators :: "string list" where
  "sdr_indicators = [''ns'', ''nc'', ''cr'', ''nr'']"

text \<open>\<^verbatim>\<open>_check_alerts(session, server, client)\<close>, in one cycle at the instant \<open>now\<close>.\<close>

definition check_alerts :: "int \<Rightarrow> server \<Rightarrow> ipmi_client \<Rightarrow> world \<Rightarrow> world" where
  "check_alerts now s c w =
     (if no_channels s then w
      else
        (let w1 = alert_check now s ''memory_errors'' ''query_memory_status''
                    (query_memory_status c) (\<lambda>out. has_errors out sdr_indicators)
                    ''Memory errors detected:'' w;
             w2 = alert_check now s ''power_failure'' ''query_power_supply_status''
                    (query_power_supply_status c) (\<lambda>out. has_errors out sdr_indicators)
                    ''Power supply issue detected:'' w1;
             w3 = alert_check now s ''intrusion'' ''query_chassis_intrusion''
                    (query_chassis_intrusion c) has_intrusion
                    ''Chassis intrusion detected:'' w2;
             w4 = alert_check now s ''voltage_issues'' ''query_voltage_status''
                    (query_voltage_status c) (\<lambda>out. has_errors out sdr_indicators)
                    ''Voltage issues detected:'' w3
         in alert_check now s ''system_events'' ''query_system_events''
              (query_system_events c) has_critical_events
              ''Critical system events detected:'' w4))"

text \<open>
  The kinds \<^verbatim>\<open>_check_alerts\<close> evaluates, with the client call of each, and what it
  means that the telemetry query of a kind fails: every \<^verbatim>\<open>ipmitool\<close> invocation the
  call makes raises.
\<close>

definition check_kinds :: "(string \<times> string) list" where
  "check_kinds =
     [(''memory_errors'', ''query_memory_status''),
      (''power_failure'', ''query_power_supply_status''),
      (''intrusion'', ''query_chassis_intrusion''),
      (''voltage_issues'', ''query_voltage_status''),
      (''system_events'', ''query_system_events'')]"

definition query_fails :: "ipmi_client \<Rightarrow> string \<Rightarrow> bool" where
  "query_fails c kind =
     (if kind = ''memory_errors'' then isl (sdr_memory c)
      else if kind = ''power_failure'' then isl (sdr_power_supply c)
      else if kind = ''intrusion'' then
        (case sdr_physical_security c of
           Inl (IPMICommandError m) \<Rightarrow> isl (sdr_get_chassis_intrusion c)
         | Inl e \<Rightarrow> True
         | Inr out \<Rightarrow> False)
      else if kind = ''voltage_issues'' then isl (sdr_voltage c)
      else if kind = ''system_events'' then isl (sel_elist c)
      else False)"

text \<open>
  The five blocks as data, in source order, and their sequential execution; used to
  state facts about all blocks at once (\<open>check_alerts_blocks\<close> below).
\<close>

definition alert_blocks ::
    "ipmi_client \<Rightarrow> (string \<times> string \<times> (py_error + string) \<times> (string \<Rightarrow> bool) \<times> string) list" where
  "alert_blocks c =
     [(''memory_errors'', ''query_memory_status'', query_memory_status c,
         (\<lambda>out. has_errors out sdr_indicators), ''Memory errors detected:''),
      (''power_failure'', ''query_power_supply_status'', query_power_supply_status c,
         (\<lambda>out. has_errors out sdr_indicators), ''Power supply issue detected:''),
      (''intrusion'', ''query_chassis_intrusion'', query_chassis_intrusion c,
         has_intrusion, ''Chassis intrusion detected:''),
      (''voltage_issues'', ''query_voltage_status'', query_voltage_status c,
         (\<lambda>out. has_errors out sdr_indicators), ''Voltage issues detected:''),
      (''system_events'', ''query_system_events'', query_system_events c,
         has_critical_events, ''Critical system events detected:'')]"

fun run_blocks ::
    "int \<Rightarrow> server \<Rightarrow> (string \<times> string \<times> (py_error + string) \<times> (string \<Rightarrow> bool) \<times> string) list
       \<Rightarrow> world \<Rightarrow> world" where
  "run_blocks now s [] w = w"
| "run_blocks now s ((kind, qname, answer, detect, prefix) # bs) w =
     run_blocks now s bs (alert_check now s kind qname answer detect prefix w)"

text \<open>A controller that answers nothing.\<close>

definition client_down :: ipmi_client where
  "client_down =
     \<lparr> sdr_temperature = Inl (IPMICommandError ''timeout''),
       sdr_fan = Inl (IPMICommandError ''timeout''),
       sdr_memory = Inl (IPMICommandError ''timeout''),
       sdr_power_supply = Inl (IPMICommandError ''timeout''),
       sdr_physical_security = Inl (IPMICommandError ''timeout''),
       sdr_get_chassis_intrusion = Inl (IPMICommandError ''timeout''),
       sel_elist = Inl (IPMICommandError ''timeout''),
       sdr_voltage = Inl (IPMICommandError ''timeout''),
       raw = (\<lambda>cmd. Inl (IPMICommandError ''timeout'')) \<rparr>"

definition no_channel_server :: server where
  "no_channel_server =
     \<lparr> server_id = 2, vendor = ''supermicro'', fan_defaults = None, fan_overrides = [],
       notification_channel_ids = Some [],
       alert_config = Some (\<lambda>k. Some True),
       offline_alert_threshold_minutes = 15, last_successful_poll = None,
       created_at = 0 \<rparr>"

text \<open>The activation messages of one kind among the dispatcher invocations.\<close>

definition activation_notes :: "string \<Rightarrow> world \<Rightarrow> notification list" where
  "activation_notes kind w =
     filter (\<lambda>n. note_alert_type n = kind \<and> \<not> note_is_cleared n) (notifications w)"

section \<open>CPU temperature parser\<close>

text \<open>
  \<^verbatim>\<open>_parse_cpu_temperature\<close>. Python's \<^verbatim>\<open>float\<close> is the parameter \<open>to_float\<close>: the
  value of a string, or \<open>None\<close> where \<^verbatim>\<open>float\<close> raises \<^verbatim>\<open>ValueError\<close>.

  \<open>line_temperature\<close> is the body of the loop over the lines, on the stripped line:
  \<open>Inr (Some v)\<close> is \<^verbatim>\<open>return v\<close>, \<open>Inr None\<close> is the end of the body or \<^verbatim>\<open>continue\<close>.
  In the source the test of the last field reads
  \<^verbatim>\<open>'degrees C' in temp_str.lower() or 'degrees' in temp_str.lower()\<close>.
\<close>

definition line_temperature :: "(string \<Rightarrow> rat option) \<Rightarrow> string \<Rightarrow> py_error + rat option" where
  "line_temperature to_float line =
     (if contains ''CPU'' (upper line) \<and> contains ''TEMP'' (upper line) then
        (let parts = split_on (CHR ''|'') line;
             temp_str = strip (last parts)
         in if 5 \<le> length parts
               \<and> (contains ''degrees C'' (lower temp_str) \<or> contains ''degrees'' (lower temp_str))
            then
              (case split_ws temp_str of
                 [] \<Rightarrow> Inl IndexError
               | temp_value # rest \<Rightarrow>
                   (case to_float temp_value of
                      Some v \<Rightarrow> Inr (Some v)
                    | None \<Rightarrow> Inr None))
            else
              (case search_degrees line of
                 Some g \<Rightarrow>
                   (case to_float g of
                      Some v \<Rightarrow> Inr (Some v)
                    | None \<Rightarrow> Inr None)
               | None \<Rightarrow> Inr None))
      else Inr None)"

fun parse_lines :: "(string \<Rightarrow> rat option) \<Rightarrow> string list \<Rightarrow> py_error + rat option" where
  "parse_lines to_float [] = Inr None"
| "parse_lines to_float (l # ls) =
     (case line_temperature to_float (strip l) of
        Inl e \<Rightarrow> Inl e
      | Inr (Some v) \<Rightarrow> Inr (Some v)
      | Inr None \<Rightarrow> parse_lines to_float ls)"

text \<open>\<^verbatim>\<open>[float(m) for m in matches]\<close>: \<open>None\<close> when one conversion raises.\<close>

fun floats_of :: "(string \<Rightarrow> rat option) \<Rightarrow> string list \<Rightarrow> rat list option" where
  "floats_of to_float [] = Some []"
| "floats_of to_float (m # ms) =
     (case to_float m of
        None \<Rightarrow> None
      | Some v \<Rightarrow> (case floats_of to_float ms of None \<Rightarrow> None | Some vs \<Rightarrow> Some (v # vs)))"

text \<open>\<^verbatim>\<open>max(temps)\<close> on a non-empty list.\<close>

fun max_of :: "rat \<Rightarrow> rat list \<Rightarrow> rat" where
  "max_of v [] = v"
| "max_of v (x # xs) = max_of (if v < x then x else v) xs"

definition parse_cpu_temperature ::
    "(string \<Rightarrow> rat option) \<Rightarrow> string \<Rightarrow> py_error + rat option" where
  "parse_cpu_temperature to_float temperature_output =
     (if temperature_output = [] then Inr None
      else
        (case parse_lines to_float (split_on (CHR 0x0A) (strip temperature_output)) of
           Inl e \<Rightarrow> Inl e
         | Inr (Some v) \<Rightarrow> Inr (Some v)
         | Inr None \<Rightarrow>
             (case findall_degrees temperature_output of
                [] \<Rightarrow> Inr None
              | m # ms \<Rightarrow>
                  (case floats_of to_float (m # ms) of
                     None \<Rightarrow> Inr None
                   | Some [] \<Rightarrow> Inr None
                   | Some (v # vs) \<Rightarrow> Inr (Some (max_of v vs))))))"

text \<open>
  Python's \<^verbatim>\<open>float\<close> on the plain decimal forms \<open>digits\<close> and \<open>digits.digits\<close>, with
  their exact value; \<open>None\<close> on every other string. It stands for \<^verbatim>\<open>float\<close> in the closed
  examples, whose strings are of these forms or are rejected by \<^verbatim>\<open>float\<close> as well.
\<close>

definition digit_value :: "char \<Rightarrow> nat" where
  "digit_value c = of_char c - 48"

definition digits_value :: "string \<Rightarrow> nat" where
  "digits_value ds = foldl (\<lambda>n c. 10 * n + digit_value c) 0 ds"

definition decimal_float :: "string \<Rightarrow> rat option" where
  "decimal_float s =
     (let ds = takeWhile is_digit s; r = drop (length ds) s in
      if ds = [] then None
      else
        (case r of
           [] \<Rightarrow> Some (of_nat (digits_value ds))
         | c # fs \<Rightarrow>
             if c = CHR ''.'' \<and> fs \<noteq> [] \<and> list_all is_digit fs
             then Some (of_nat (digits_value (ds @ fs)) / 10 ^ length fs)
             else None))"

section \<open>Poll cycle\<close>

text \<open>
  A step of the \<^verbatim>\<open>try\<close> body of \<^verbatim>\<open>_poll_server\<close> returns the state it leaves behind
  and the exception it raises, if any: what the body did before the exception stays done
  when the handler runs.

  \<^verbatim>\<open>IPMIClient.set_fan_speed(target_rpm, fan_identifier)\<close>: the call is logged, then the
  command is built (which raises for an unsupported vendor) and sent.
\<close>

definition set_fan_speed ::
    "server \<Rightarrow> ipmi_client \<Rightarrow> int \<Rightarrow> string option \<Rightarrow> world \<Rightarrow> py_error option \<times> world" where
  "set_fan_speed s c rpm fan_id w =
     (let w1 = w\<lparr>fan_commands := fan_commands w @ [(rpm, fan_id)]\<rparr> in
      case build_fan_command (vendor s) rpm fan_id of
        Inl e \<Rightarrow> (Some e, w1)
      | Inr command \<Rightarrow>
          (case raw c command of
             Inl e \<Rightarrow> (Some e, w1)
           | Inr out \<Rightarrow> (None, w1)))"

text \<open>
  The loop \<^verbatim>\<open>for override in server.fan_overrides\<close>: an override without a fan
  identifier or without \<^verbatim>\<open>min_rpm\<close> is skipped; the others command their fan with the
  override rpm at or below the threshold and with the base rpm otherwise.
\<close>

fun apply_overrides ::
    "server \<Rightarrow> ipmi_client \<Rightarrow> rat \<Rightarrow> int \<Rightarrow> rat option \<Rightarrow> fan_override list \<Rightarrow> world
       \<Rightarrow> py_error option \<times> world" where
  "apply_overrides s c cpu_temp base_rpm first_zone_threshold [] w = (None, w)"
| "apply_overrides s c cpu_temp base_rpm first_zone_threshold (override # rest) w =
     (if fan_identifier override = [] \<or> min_rpm override = None
      then apply_overrides s c cpu_temp base_rpm first_zone_threshold rest w
      else
        (case set_fan_speed s c
                (if first_zone_threshold \<noteq> None \<and> cpu_temp \<le> the first_zone_threshold
                 then the (min_rpm override) else base_rpm)
                (Some (fan_identifier override)) w of
           (Some e, w1) \<Rightarrow> (Some e, w1)
         | (None, w1) \<Rightarrow> apply_overrides s c cpu_temp base_rpm first_zone_threshold rest w1))"

text \<open>The fan control of one cycle, for a parsed temperature.\<close>

definition fan_control ::
    "server \<Rightarrow> ipmi_client \<Rightarrow> rat \<Rightarrow> world \<Rightarrow> py_error option \<times> world" where
  "fan_control s c cpu_temp w =
     (case calculate_target_rpm s cpu_temp of
        None \<Rightarrow> (None, w)
      | Some base_rpm \<Rightarrow>
          (let first_zone_threshold = get_first_zone_threshold s in
           case set_fan_speed s c base_rpm None w of
             (Some e, w1) \<Rightarrow> (Some e, w1)
           | (None, w1) \<Rightarrow>
               apply_overrides s c cpu_temp base_rpm first_zone_threshold (fan_overrides s) w1))"

text \<open>
  The critical temperature check: fixed threshold 80. The number in the message is not
  formatted.
\<close>

definition check_critical_temperature ::
    "int \<Rightarrow> server \<Rightarrow> rat \<Rightarrow> world \<Rightarrow> py_error option \<times> world" where
  "check_critical_temperature now s cpu_temp w =
     (if is_alert_enabled s ''temperature_critical'' then
        (case (if 80 \<le> cpu_temp
               then activate_alert now s ''temperature_critical'' ''CPU temperature critical'' w
               else clear_alert_if_active now s ''temperature_critical'' ''auto'' w) of
           Inl e \<Rightarrow> (Some e, w)
         | Inr w1 \<Rightarrow> (None, w1))
      else (None, w))"

text \<open>
  The \<^verbatim>\<open>try\<close> body of \<^verbatim>\<open>_poll_server\<close> in two parts. \<open>poll_control\<close> is the part
  before the call of \<^verbatim>\<open>_check_alerts\<close>: the two readings, the parsing, the fan control
  and the critical temperature check. \<open>poll_body\<close> is the whole body up to the update of
  \<^verbatim>\<open>last_successful_poll\<close>: the alert evaluation follows when the first part raised
  nothing, and what it raises inside is caught in its own blocks.
\<close>

definition poll_control ::
    "(string \<Rightarrow> rat option) \<Rightarrow> int \<Rightarrow> server \<Rightarrow> ipmi_client \<Rightarrow> world \<Rightarrow> py_error option \<times> world" where
  "poll_control to_float now s c w =
     (let w1 = w\<lparr>queries := queries w @ [''query_temperatures'']\<rparr> in
      case sdr_temperature c of
        Inl e \<Rightarrow> (Some e, w1)
      | Inr temperatures \<Rightarrow>
          (let w2 = w1\<lparr>queries := queries w1 @ [''query_fans'']\<rparr> in
           case sdr_fan c of
             Inl e \<Rightarrow> (Some e, w2)
           | Inr fans \<Rightarrow>
               (case parse_cpu_temperature to_float temperatures of
                  Inl e \<Rightarrow> (Some e, w2)
                | Inr None \<Rightarrow> (None, w2)
                | Inr (Some cpu_temp) \<Rightarrow>
                    (case fan_control s c cpu_temp w2 of
                       (Some e, w3) \<Rightarrow> (Some e, w3)
                     | (None, w3) \<Rightarrow> check_critical_temperature now s cpu_temp w3))))"

definition poll_body ::
    "(string \<Rightarrow> rat option) \<Rightarrow> int \<Rightarrow> server \<Rightarrow> ipmi_client \<Rightarrow> world \<Rightarrow> py_error option \<times> world" where
  "poll_body to_float now s c w =
     (case poll_control to_float now s c w of
        (Some e, w1) \<Rightarrow> (Some e, w1)
      | (None, w1) \<Rightarrow> (None, check_alerts now s c w1))"

text \<open>
  The message of the connectivity alert raised by the handlers. The text of an exception
  other than \<^verbatim>\<open>IPMICommandError\<close> is not modelled.
\<close>

definition failure_message :: "py_error \<Rightarrow> string" where
  "failure_message e =
     (case e of
        IPMICommandError error_msg \<Rightarrow>
          if contains ''Unable to establish'' error_msg \<or> contains ''Connection refused'' error_msg
             \<or> contains ''timeout'' (lower error_msg)
          then ''Server unreachable: '' @ error_msg
          else ''IPMI communication error: '' @ error_msg
      | _ \<Rightarrow> ''Unexpected error during poll'')"

text \<open>
  \<^verbatim>\<open>_poll_server\<close> for a server that exists, at the instant \<open>now\<close>: the new server row
  and state, or the exception that escapes the job (one raised by a handler or by the
  \<^verbatim>\<open>else\<close> branch).
\<close>

definition poll_server ::
    "(string \<Rightarrow> rat option) \<Rightarrow> int \<Rightarrow> server \<Rightarrow> ipmi_client \<Rightarrow> world
       \<Rightarrow> py_error + (server \<times> world)" where
  "poll_server to_float now s c w =
     (case poll_body to_float now s c w of
        (Some e, w1) \<Rightarrow>
          if is_alert_enabled s ''connectivity'' then
            (case activate_alert now s ''connectivity'' (failure_message e) w1 of
               Inl e' \<Rightarrow> Inl e'
             | Inr w2 \<Rightarrow> Inr (s, w2))
          else Inr (s, w1)
      | (None, w1) \<Rightarrow>
          (let s1 = s\<lparr>last_successful_poll := Some now\<rparr> in
           if is_alert_enabled s1 ''connectivity'' then
             (case clear_alert_if_active now s1 ''connectivity'' ''auto'' w1 of
                Inl e' \<Rightarrow> Inl e'
              | Inr w2 \<Rightarrow> Inr (s1, w2))
           else Inr (s1, w1)))"

section \<open>Staleness monitor\<close>

text \<open>
  One iteration of the loop of \<^verbatim>\<open>_check_offline_servers\<close>. Time is in microseconds;
  \<^verbatim>\<open>offline_alert_threshold_minutes or 15\<close> replaces a stored zero by 15. The numbers in
  the messages are not formatted.
\<close>

definition threshold_timedelta :: "server \<Rightarrow> int" where
  "threshold_timedelta s =
     (let threshold_minutes =
        (if offline_alert_threshold_minutes s = 0 then 15 else offline_alert_threshold_minutes s)
      in threshold_minutes * 60 * 1000000)"

definition check_offline_server :: "int \<Rightarrow> server \<Rightarrow> world \<Rightarrow> py_error + world" where
  "check_offline_server now s w =
     (if \<not> is_alert_enabled s ''connectivity'' then Inr w
      else if no_channels s then Inr w
      else
        (case last_successful_poll s of
           None \<Rightarrow>
             if threshold_timedelta s \<le> now - created_at s
             then activate_alert now s ''connectivity'' ''Server has not responded since creation'' w
             else Inr w
         | Some last_poll \<Rightarrow>
             if threshold_timedelta s \<le> now - last_poll
             then activate_alert now s ''connectivity'' ''Server has been offline'' w
             else clear_alert_if_active now s ''connectivity'' ''auto'' w))"


text \<open>
  The uniqueness constraint as an invariant of the table: no two rows with the same
  entity and kind.
\<close>

definition alert_key :: "active_alert \<Rightarrow> int \<times> string" where
  "alert_key a = (alert_server_id a, alert_type a)"

definition unique_rows :: "active_alert list \<Rightarrow> bool" where
  "unique_rows rows \<longleftrightarrow> distinct (map alert_key rows)"

text \<open>The instant the staleness of an entity is measured from.\<close>

definition last_seen :: "server \<Rightarrow> int" where
  "last_seen s = (case last_successful_poll s of None \<Rightarrow> created_at s | Some t \<Rightarrow> t)"

text \<open>A cleared row of the pair is in the table.\<close>

definition has_cleared_row :: "active_alert list \<Rightarrow> int \<Rightarrow> string \<Rightarrow> bool" where
  "has_cleared_row rows sid ty \<longleftrightarrow>
     (\<exists>a \<in> set rows. alert_server_id a = sid \<and> alert_type a = ty \<and> cleared_at a \<noteq> None)"

text \<open>A controller that answers every query with healthy readings and accepts commands.\<close>

definition client_ok :: ipmi_client where
  "client_ok =
     \<lparr> sdr_temperature = Inr ''CPU Temp | 04h | ok | 7.1 | 50 degrees C'',
       sdr_fan = Inr ''FAN1 | 41h | ok | 29.1 | 1800 RPM'',
       sdr_memory = Inr [],
       sdr_power_supply = Inr ''PS1 Status | C8h | ok | 10.1 | Presence detected'',
       sdr_physical_security = Inr [],
       sdr_get_chassis_intrusion = Inr [],
       sel_elist = Inr [],
       sdr_voltage = Inr ''12V | 30h | ok | 7.18 | 12.24 Volts'',
       raw = (\<lambda>cmd. Inr []) \<rparr>"

text \<open>
  The enabled channels among those the entity references: the channels the dispatcher
  attempts (the \<open>targets\<close> of \<open>send_alert_notification\<close>).
\<close>

definition dispatch_targets :: "server \<Rightarrow> world \<Rightarrow> int list" where
  "dispatch_targets s w =
     (case notification_channel_ids s of
        None \<Rightarrow> []
      | Some ids \<Rightarrow>
          map channel_id (filter (\<lambda>c. channel_id c \<in> set ids \<and> enabled c) (channels w)))"

text \<open>An entity with every alert kind enabled that references channel 7, and a state
  whose channel table holds that channel, enabled.\<close>

definition server_one :: server where
  "server_one =
     \<lparr> server_id = 1, vendor = ''supermicro'', fan_defaults = None, fan_overrides = [],
       notification_channel_ids = Some [7],
       alert_config = Some (\<lambda>k. Some True),
       offline_alert_threshold_minutes = 15, last_successful_poll = None,
       created_at = 0 \<rparr>"

definition world_one :: world where
  "world_one = empty_world\<lparr>channels := [\<lparr>channel_id = 7, enabled = True\<rparr>]\<rparr>"

text \<open>
  What a state shows of one kind of one entity: the rows of the pair, live and cleared,
  and the dispatcher invocations of the kind.
\<close>

definition pair_rows :: "int \<Rightarrow> string \<Rightarrow> world \<Rightarrow> active_alert list" where
  "pair_rows sid k w = filter (\<lambda>a. alert_server_id a = sid \<and> alert_type a = k) (alerts w)"

definition kind_notes :: "string \<Rightarrow> world \<Rightarrow> notification list" where
  "kind_notes k w = filter (\<lambda>n. note_alert_type n = k) (notifications w)"

definition kind_view :: "int \<Rightarrow> string \<Rightarrow> world \<Rightarrow> active_alert list \<times> notification list" where
  "kind_view sid k w = (pair_rows sid k w, kind_notes k w)"

text \<open>
  Two controllers whose memory query fails while the readings succeed: in the first the
  client call raises an exception other than \<^verbatim>\<open>IPMICommandError\<close> (and a voltage sensor
  reports a critical state), in the second \<^verbatim>\<open>ipmitool\<close> exits with an error. A state in
  which the entity has a live memory alert.
\<close>

definition client_memory_fails :: ipmi_client where
  "client_memory_fails =
     client_ok\<lparr> sdr_memory := Inl RuntimeError,
                sdr_voltage := Inr ''12V | 30h | cr | 7.18 | 9.24 Volts'' \<rparr>"

definition client_memory_error :: ipmi_client where
  "client_memory_error =
     client_ok\<lparr> sdr_memory := Inl (IPMICommandError ''Unable to establish IPMI v2 / RMCP+ session'') \<rparr>"

definition world_memory_live :: world where
  "world_memory_live =
     world_one\<lparr>alerts :=
       [\<lparr>alert_server_id = 1, alert_type = ''memory_errors'', message = ''m'',
         first_triggered_at = 1, last_updated_at = 1, cleared_at = None, cleared_by = None\<rparr>]\<rparr>"


section \<open>Fan curve: zone selection\<close>

lemma zone_loop_find:
  assumes "\<forall>z \<in> set pre. zone_threshold z < t"
  shows "zone_loop (pre @ suf) suf t =
           map_option zone_rpm (List.find (\<lambda>z. t \<le> zone_threshold z) suf)"
  using assms
proof (induction suf arbitrary: pre)
  case Nil
  then show ?case by simp
next
  case (Cons z rest)
  show ?case
  proof (cases "t \<le> zone_threshold z")
    case False
    then have lt: "zone_threshold z < t" by simp
    have "\<forall>y \<in> set (pre @ [z]). zone_threshold y < t"
      using Cons.prems lt by auto
    from Cons.IH [OF this] have IH:
      "zone_loop (pre @ z # rest) rest t =
         map_option zone_rpm (List.find (\<lambda>z. t \<le> zone_threshold z) rest)"
      by simp
    from False IH show ?thesis by (simp add: Let_def)
  next
    case True
    have notin: "z \<notin> set pre" using Cons.prems True by auto
    have idx: "index_of z (pre @ z # rest) = length pre"
      using notin by (induction pre) auto
    show ?thesis
    proof (cases pre rule: rev_cases)
      case Nil
      with True idx show ?thesis by (simp add: Let_def)
    next
      case (snoc ys y)
      then have "zone_threshold y < t" using Cons.prems by simp
      moreover have "(pre @ z # rest) ! (length pre - 1) = y"
        using snoc by (simp add: nth_append)
      ultimately show ?thesis using True idx snoc by (simp add: Let_def)
    qed
  qed
qed

lemma calculate_target_rpm_find:
  assumes "configured_zones s = Some zs" and "zs \<noteq> []"
  shows "calculate_target_rpm s t =
           Some (case List.find (\<lambda>z. t \<le> zone_threshold z) (sorted_zones zs) of
                   None \<Rightarrow> zone_rpm (last (sorted_zones zs))
                 | Some z \<Rightarrow> zone_rpm z)"
proof -
  have "zone_loop (sorted_zones zs) (sorted_zones zs) t =
          map_option zone_rpm (List.find (\<lambda>z. t \<le> zone_threshold z) (sorted_zones zs))"
    using zone_loop_find [of "[]" t "sorted_zones zs"] by simp
  then show ?thesis
    using assms by (simp add: calculate_target_rpm_def Let_def split: option.splits)
qed


lemma find_first_le_sorted:
  assumes "sorted (map zone_threshold zs)" and "i < length zs"
    and "t \<le> zone_threshold (zs ! i)"
    and "i = 0 \<or> zone_threshold (zs ! (i - 1)) < t"
  shows "List.find (\<lambda>z. t \<le> zone_threshold z) zs = Some (zs ! i)"
proof -
  have "\<not> t \<le> zone_threshold (zs ! j)" if "j < i" for j
  proof -
    from that assms(4) have prev: "zone_threshold (zs ! (i - 1)) < t" by auto
    from that assms(2) have "j \<le> i - 1" "i - 1 < length zs" by auto
    with assms(1) have "map zone_threshold zs ! j \<le> map zone_threshold zs ! (i - 1)"
      by (intro sorted_nth_mono) auto
    with that assms(2) have "zone_threshold (zs ! j) \<le> zone_threshold (zs ! (i - 1))"
      by simp
    with prev show ?thesis by simp
  qed
  with assms(2,3) show ?thesis
    unfolding find_Some_iff by blast
qed

lemma find_none_above_last:
  assumes "sorted (map zone_threshold zs)" and "zs \<noteq> []"
    and "zone_threshold (last zs) < t"
  shows "List.find (\<lambda>z. t \<le> zone_threshold z) zs = None"
proof -
  have "zone_threshold z \<le> zone_threshold (last zs)" if "z \<in> set zs" for z
  proof -
    from that obtain j where j: "j < length zs" "zs ! j = z"
      by (auto simp: in_set_conv_nth)
    with assms(1) have "map zone_threshold zs ! j \<le> map zone_threshold zs ! (length zs - 1)"
      by (intro sorted_nth_mono) auto
    with j assms(2) show ?thesis by (simp add: last_conv_nth)
  qed
  with assms(3) show ?thesis
    unfolding find_None_iff by fastforce
qed

lemma sorted_rpm_le_last:
  assumes "sorted (map zone_rpm zs)" and "z \<in> set zs"
  shows "zone_rpm z \<le> zone_rpm (last zs)"
proof -
  from assms(2) obtain j where j: "j < length zs" "zs ! j = z"
    by (auto simp: in_set_conv_nth)
  then have ne: "zs \<noteq> []" by auto
  from assms(1) j have "map zone_rpm zs ! j \<le> map zone_rpm zs ! (length zs - 1)"
    by (intro sorted_nth_mono) auto
  with j ne show ?thesis by (simp add: last_conv_nth)
qed

lemma selected_rpm_mono:
  assumes "sorted (map zone_rpm zs)" and "zs \<noteq> []" and "t \<le> t'"
  shows "(case List.find (\<lambda>z. t \<le> zone_threshold z) zs of
            None \<Rightarrow> zone_rpm (last zs) | Some z \<Rightarrow> zone_rpm z)
         \<le> (case List.find (\<lambda>z. t' \<le> zone_threshold z) zs of
            None \<Rightarrow> zone_rpm (last zs) | Some z \<Rightarrow> zone_rpm z)"
proof (cases "List.find (\<lambda>z. t' \<le> zone_threshold z) zs")
  case None
  show ?thesis
  proof (cases "List.find (\<lambda>z. t \<le> zone_threshold z) zs")
    case n: None
    with None show ?thesis by simp
  next
    case (Some z)
    then have "z \<in> set zs" by (auto simp: find_Some_iff)
    with assms(1) have "zone_rpm z \<le> zone_rpm (last zs)" by (rule sorted_rpm_le_last)
    with None Some show ?thesis by simp
  qed
next
  case (Some z')
  then obtain j where j: "j < length zs" "t' \<le> zone_threshold (zs ! j)" "z' = zs ! j"
    by (auto simp: find_Some_iff)
  with assms(3) have "t \<le> zone_threshold (zs ! j)" by simp
  with j(1) have "List.find (\<lambda>z. t \<le> zone_threshold z) zs \<noteq> None"
    unfolding find_None_iff using nth_mem [OF j(1)] by blast
  then obtain z where z: "List.find (\<lambda>z. t \<le> zone_threshold z) zs = Some z" by auto
  then obtain i where i: "i < length zs" "z = zs ! i"
    "\<forall>k<i. \<not> t \<le> zone_threshold (zs ! k)"
    by (auto simp: find_Some_iff)
  have "i \<le> j"
  proof (rule ccontr)
    assume "\<not> i \<le> j"
    then have "j < i" by simp
    with i(3) \<open>t \<le> zone_threshold (zs ! j)\<close> show False by blast
  qed
  with assms(1) j(1) have "map zone_rpm zs ! i \<le> map zone_rpm zs ! j"
    by (intro sorted_nth_mono) auto
  with i j have "zone_rpm z \<le> zone_rpm z'" by simp
  with Some z show ?thesis by simp
qed

text \<open>
  C1. For a non-empty zone table that is sorted ascending by threshold, and every
  temperature \<open>t\<close>, the computed target is the rpm of one configured zone: the lowest
  zone's at or below the lowest threshold; zone \<open>i\<close>'s when \<open>t\<close> is strictly above
  threshold \<open>i - 1\<close> and at or below threshold \<open>i\<close>; the highest zone's strictly above
  the highest threshold. When the configured rpms are non-decreasing across the zones,
  the target is non-decreasing in the temperature.
\<close>

theorem fan_curve_zone_selection:
  assumes "configured_zones s = Some zs" and "zs \<noteq> []"
    and "sorted (map zone_threshold zs)"
  shows "(t \<le> zone_threshold (zs ! 0) \<longrightarrow>
            calculate_target_rpm s t = Some (zone_rpm (zs ! 0)))
       \<and> (\<forall>i. 0 < i \<and> i < length zs \<and> zone_threshold (zs ! (i - 1)) < t
                \<and> t \<le> zone_threshold (zs ! i) \<longrightarrow>
            calculate_target_rpm s t = Some (zone_rpm (zs ! i)))
       \<and> (zone_threshold (last zs) < t \<longrightarrow>
            calculate_target_rpm s t = Some (zone_rpm (last zs)))
       \<and> (\<exists>i<length zs. calculate_target_rpm s t = Some (zone_rpm (zs ! i)))
       \<and> (sorted (map zone_rpm zs) \<longrightarrow>
            (\<forall>t'. t \<le> t' \<longrightarrow>
               (\<exists>r r'. calculate_target_rpm s t = Some r
                      \<and> calculate_target_rpm s t' = Some r' \<and> r \<le> r')))"
proof -
  let ?P = "\<lambda>u z. u \<le> zone_threshold z"
  let ?sel = "\<lambda>u. case List.find (?P u) zs of
                     None \<Rightarrow> zone_rpm (last zs) | Some z \<Rightarrow> zone_rpm z"
  have srt: "sorted_zones zs = zs"
    using assms(3) by (simp add: sorted_zones_def sort_key_id_if_sorted)
  have res: "calculate_target_rpm s u = Some (?sel u)" for u
    using calculate_target_rpm_find [OF assms(1,2), of u] unfolding srt by simp
  have len: "0 < length zs" using assms(2) by simp
  have a: "calculate_target_rpm s t = Some (zone_rpm (zs ! 0))"
    if "t \<le> zone_threshold (zs ! 0)"
    using find_first_le_sorted [OF assms(3) len that] res by simp
  have b: "calculate_target_rpm s t = Some (zone_rpm (zs ! i))"
    if "0 < i" "i < length zs" "zone_threshold (zs ! (i - 1)) < t"
       "t \<le> zone_threshold (zs ! i)" for i
    using find_first_le_sorted [OF assms(3) that(2) that(4)] that(3) res by simp
  have c: "calculate_target_rpm s t = Some (zone_rpm (last zs))"
    if "zone_threshold (last zs) < t"
    using find_none_above_last [OF assms(3) assms(2) that] res by simp
  have d: "\<exists>i<length zs. calculate_target_rpm s t = Some (zone_rpm (zs ! i))"
  proof (cases "List.find (?P t) zs")
    case None
    then have "calculate_target_rpm s t = Some (zone_rpm (zs ! (length zs - 1)))"
      using res assms(2) by (simp add: last_conv_nth)
    with len show ?thesis by (intro exI [of _ "length zs - 1"]) simp
  next
    case (Some z)
    then obtain i where "i < length zs" "z = zs ! i" by (auto simp: find_Some_iff)
    with Some res show ?thesis by auto
  qed
  have e: "\<exists>r r'. calculate_target_rpm s t = Some r
                \<and> calculate_target_rpm s t' = Some r' \<and> r \<le> r'"
    if "sorted (map zone_rpm zs)" "t \<le> t'" for t'
    using selected_rpm_mono [OF that(1) assms(2) that(2)] res by simp
  from a b c d e show ?thesis by blast
qed

theorem fan_curve_zone_selection_witness:
  "configured_zones (server_with_zones
       [\<lparr>temp_threshold = Some 40, target_rpm = Some 1000\<rparr>,
        \<lparr>temp_threshold = Some 60, target_rpm = Some 2000\<rparr>])
     = Some [\<lparr>temp_threshold = Some 40, target_rpm = Some 1000\<rparr>,
             \<lparr>temp_threshold = Some 60, target_rpm = Some 2000\<rparr>]
   \<and> sorted (map zone_threshold
       [\<lparr>temp_threshold = Some 40, target_rpm = Some 1000\<rparr>,
        \<lparr>temp_threshold = Some 60, target_rpm = Some 2000\<rparr>])
   \<and> sorted (map zone_rpm
       [\<lparr>temp_threshold = Some 40, target_rpm = Some 1000\<rparr>,
        \<lparr>temp_threshold = Some 60, target_rpm = Some 2000\<rparr>])
   \<and> calculate_target_rpm (server_with_zones
       [\<lparr>temp_threshold = Some 40, target_rpm = Some 1000\<rparr>,
        \<lparr>temp_threshold = Some 60, target_rpm = Some 2000\<rparr>]) 45 = Some 2000
   \<and> (\<exists>r r'. calculate_target_rpm (server_with_zones
       [\<lparr>temp_threshold = Some 40, target_rpm = Some 1000\<rparr>,
        \<lparr>temp_threshold = Some 60, target_rpm = Some 2000\<rparr>]) 45 = Some r
     \<and> calculate_target_rpm (server_with_zones
       [\<lparr>temp_threshold = Some 40, target_rpm = Some 1000\<rparr>,
        \<lparr>temp_threshold = Some 60, target_rpm = Some 2000\<rparr>]) 70 = Some r'
     \<and> r \<le> r')"
proof -
  let ?zs = "[\<lparr>temp_threshold = Some 40, target_rpm = Some 1000\<rparr>,
              \<lparr>temp_threshold = Some 60, target_rpm = Some (2000::int)\<rparr>]"
  have h1: "configured_zones (server_with_zones ?zs) = Some ?zs"
    by (simp add: configured_zones_def server_with_zones_def)
  have h2: "?zs \<noteq> []" by simp
  have h3: "sorted (map zone_threshold ?zs)" by (simp add: zone_threshold_def)
  have h4: "sorted (map zone_rpm ?zs)" by (simp add: zone_rpm_def)
  note sel = fan_curve_zone_selection [OF h1 h2 h3, of 45]
  have b: "calculate_target_rpm (server_with_zones ?zs) 45 = Some (zone_rpm (?zs ! 1))"
    using sel [THEN conjunct2, THEN conjunct1, rule_format, of 1]
    by (simp add: zone_threshold_def)
  have e: "\<exists>r r'. calculate_target_rpm (server_with_zones ?zs) 45 = Some r
        \<and> calculate_target_rpm (server_with_zones ?zs) 70 = Some r' \<and> r \<le> r'"
    using sel [THEN conjunct2, THEN conjunct2, THEN conjunct2, THEN conjunct2,
        rule_format, OF h4, of 70]
    by simp
  from h1 h3 h4 b e show ?thesis by (simp add: zone_rpm_def)
qed

text \<open>
  C5. With zones \<open>[{50, 1800}, {52, 3500}, {70, 5000}]\<close> the claim expects 1800 rpm at
  48 degrees, 3500 rpm at 60 degrees and 5000 rpm at 75 degrees. A threshold is the
  inclusive upper end of its zone, so 60 degrees (above 52, at most 70) falls into the
  third zone: the computed target there is 5000 rpm, not 3500.
\<close>

theorem fan_curve_scenario_counterexample:
  "calculate_target_rpm (server_with_zones
       [\<lparr>temp_threshold = Some 50, target_rpm = Some 1800\<rparr>,
        \<lparr>temp_threshold = Some 52, target_rpm = Some 3500\<rparr>,
        \<lparr>temp_threshold = Some 70, target_rpm = Some 5000\<rparr>]) 60 \<noteq> Some 3500"
  by code_simp

text \<open>
  C5, amended. With the same zones the target is 1800 rpm at 48 degrees, 5000 rpm at
  60 degrees and 5000 rpm at 75 degrees; 3500 rpm is the target strictly above 50 and
  up to 52 degrees, for instance at 51.
\<close>

theorem fan_curve_scenario:
  "calculate_target_rpm (server_with_zones
       [\<lparr>temp_threshold = Some 50, target_rpm = Some 1800\<rparr>,
        \<lparr>temp_threshold = Some 52, target_rpm = Some 3500\<rparr>,
        \<lparr>temp_threshold = Some 70, target_rpm = Some 5000\<rparr>]) 48 = Some 1800
   \<and> calculate_target_rpm (server_with_zones
       [\<lparr>temp_threshold = Some 50, target_rpm = Some 1800\<rparr>,
        \<lparr>temp_threshold = Some 52, target_rpm = Some 3500\<rparr>,
        \<lparr>temp_threshold = Some 70, target_rpm = Some 5000\<rparr>]) 60 = Some 5000
   \<and> calculate_target_rpm (server_with_zones
       [\<lparr>temp_threshold = Some 50, target_rpm = Some 1800\<rparr>,
        \<lparr>temp_threshold = Some 52, target_rpm = Some 3500\<rparr>,
        \<lparr>temp_threshold = Some 70, target_rpm = Some 5000\<rparr>]) 75 = Some 5000
   \<and> calculate_target_rpm (server_with_zones
       [\<lparr>temp_threshold = Some 50, target_rpm = Some 1800\<rparr>,
        \<lparr>temp_threshold = Some 52, target_rpm = Some 3500\<rparr>,
        \<lparr>temp_threshold = Some 70, target_rpm = Some 5000\<rparr>]) 51 = Some 3500"
  by code_simp

section \<open>Alert state store: activation and clearing\<close>



lemma send_alert_notification_alerts [simp]:
  "alerts (send_alert_notification s ty msg c w) = alerts w"
  by (simp add: send_alert_notification_def Let_def)

lemma send_alert_notification_log:
  "\<exists>n. notifications (send_alert_notification s ty msg c w) = notifications w @ [n]
       \<and> note_server_id n = server_id s \<and> note_alert_type n = ty \<and> note_is_cleared n = c
       \<and> note_message n = msg"
  by (simp add: send_alert_notification_def Let_def)

lemma send_alert_notification_entry:
  "notifications (send_alert_notification s ty msg c w) =
     notifications w @
       [\<lparr>note_server_id = server_id s, note_alert_type = ty, note_message = msg,
         note_is_cleared = c, note_targets = dispatch_targets s w\<rparr>]"
  by (simp add: send_alert_notification_def dispatch_targets_def Let_def split: option.splits)

lemma dispatch_targets_frame [simp]:
  "dispatch_targets s (w\<lparr>alerts := rows\<rparr>) = dispatch_targets s w"
  "dispatch_targets s (w\<lparr>queries := qs\<rparr>) = dispatch_targets s w"
  "dispatch_targets s (w\<lparr>notifications := ns\<rparr>) = dispatch_targets s w"
  "dispatch_targets s (w\<lparr>fan_commands := fs\<rparr>) = dispatch_targets s w"
  by (simp_all add: dispatch_targets_def split: option.splits)


text \<open>
  C2. Activation is not idempotent for every pair with no live record. For a pair that
  has never been alerted the two calls behave as the claim says (lemma
  \<open>activate_alert_twice_fresh\<close>). For a pair whose earlier alert has been cleared, the
  cleared row is still in the table and the uniqueness constraint of the table spans it:
  no live record exists, yet each of the two activations raises \<^verbatim>\<open>IntegrityError\<close> at
  commit. No record is created, no live record results and nothing is handed to the
  dispatcher, although the entity references an enabled channel.
\<close>

theorem activate_twice_after_clear_failing_input:
  "live_alerts (run_calls server_one ''memory_errors''
                  [Activate 1 ''m'', Clear 2 ''auto''] world_one) 1 ''memory_errors'' = []
   \<and> activate_alert 3 server_one ''memory_errors'' ''m''
       (run_calls server_one ''memory_errors'' [Activate 1 ''m'', Clear 2 ''auto''] world_one)
     = Inl IntegrityError
   \<and> activate_alert 4 server_one ''memory_errors'' ''m''
       (run_calls server_one ''memory_errors'' [Activate 1 ''m'', Clear 2 ''auto''] world_one)
     = Inl IntegrityError
   \<and> run_calls server_one ''memory_errors''
       [Activate 1 ''m'', Clear 2 ''auto'', Activate 3 ''m'', Activate 4 ''m''] world_one
     = run_calls server_one ''memory_errors'' [Activate 1 ''m'', Clear 2 ''auto''] world_one
   \<and> map note_targets (notifications (run_calls server_one ''memory_errors''
       [Activate 1 ''m'', Clear 2 ''auto'', Activate 3 ''m'', Activate 4 ''m''] world_one))
     = [[7], [7]]"
  by (simp add: activate_alert_def clear_alert_if_active_def scalar_one_or_none_def
      live_alerts_def is_live_def violates_unique_def send_alert_notification_def
      empty_world_def world_one_def server_one_def Let_def)

lemma clear_alert_not_active_noop:
  "live_alerts w (server_id s) ty = [] \<Longrightarrow> clear_alert_if_active now s ty actor w = Inr w"
  by (simp add: clear_alert_if_active_def scalar_one_or_none_def)

lemma filter_live_after_clear:
  "filter (is_live sid ty)
     (map (\<lambda>a. if is_live sid ty a
                then a\<lparr>cleared_at := Some now, cleared_by := Some actor, last_updated_at := now\<rparr>
                else a) rows) = []"
  by (induction rows) (auto simp: is_live_def)

lemma clear_alert_active_once:
  assumes "live_alerts w (server_id s) ty = [a]"
  shows "\<exists>w' n. clear_alert_if_active now s ty actor w = Inr w'
           \<and> live_alerts w' (server_id s) ty = []
           \<and> a\<lparr>cleared_at := Some now, cleared_by := Some actor, last_updated_at := now\<rparr>
               \<in> set (alerts w')
           \<and> length (alerts w') = length (alerts w)
           \<and> notifications w' = notifications w @ [n]
           \<and> note_is_cleared n \<and> note_alert_type n = ty \<and> note_server_id n = server_id s"
proof -
  let ?upd = "\<lambda>a. if is_live (server_id s) ty a
                then a\<lparr>cleared_at := Some now, cleared_by := Some actor, last_updated_at := now\<rparr>
                else a"
  let ?w' = "send_alert_notification s ty (message a) True (w\<lparr>alerts := map ?upd (alerts w)\<rparr>)"
  have run: "clear_alert_if_active now s ty actor w = Inr ?w'"
    using assms by (simp add: clear_alert_if_active_def scalar_one_or_none_def)
  have "a \<in> set (filter (is_live (server_id s) ty) (alerts w))"
    using assms by (simp add: live_alerts_def)
  then have a: "a \<in> set (alerts w)" "is_live (server_id s) ty a" by auto
  then have mem: "a\<lparr>cleared_at := Some now, cleared_by := Some actor, last_updated_at := now\<rparr>
      \<in> set (alerts ?w')"
    by (auto simp: image_iff intro!: bexI [of _ a])
  have nolive: "live_alerts ?w' (server_id s) ty = []"
    by (simp add: live_alerts_def filter_live_after_clear)
  obtain n where n: "notifications ?w' = notifications w @ [n]" "note_is_cleared n"
      "note_alert_type n = ty" "note_server_id n = server_id s"
    using send_alert_notification_log [of s ty "message a" True "w\<lparr>alerts := map ?upd (alerts w)\<rparr>"]
    by auto
  have len: "length (alerts ?w') = length (alerts w)" by simp
  show ?thesis
    apply (rule exI [of _ ?w'], rule exI [of _ n])
    using run nolive mem len n by simp
qed

text \<open>
  C3. Clearing with no live row is a no-op and clearing a live row stamps it and invokes
  the dispatcher once (the two lemmas above). The sequence part of the claim fails: the
  uniqueness constraint of the table spans cleared rows, so after the first
  activate-to-clear edge a further activation of the same (entity, kind) raises
  \<^verbatim>\<open>IntegrityError\<close> at commit. In the sequence activate, clear, activate, clear the
  second edge sends nothing: two dispatcher invocations in all, not four.
\<close>

theorem clear_edge_sequence_failing_input:
  "activate_alert 3 server_one ''memory_errors'' ''m''
       (run_calls server_one ''memory_errors'' [Activate 1 ''m'', Clear 2 ''auto''] empty_world)
     = Inl IntegrityError
   \<and> map note_is_cleared
       (notifications (run_calls server_one ''memory_errors''
          [Activate 1 ''m'', Clear 2 ''auto'', Activate 3 ''m'', Clear 4 ''auto''] empty_world))
     = [False, True]"
  by (simp add: activate_alert_def clear_alert_if_active_def scalar_one_or_none_def
      live_alerts_def is_live_def violates_unique_def send_alert_notification_def
      empty_world_def server_one_def Let_def)

section \<open>Alert evaluation: channel guard and swallowed query failures\<close>

text \<open>
  C10. For an entity with no notification channel (no list or an empty list) the
  evaluation returns the state unchanged, whatever the alert configuration enables: no
  query is logged, no alert row is added or changed, the dispatcher is not invoked.
\<close>

theorem check_alerts_no_channels:
  "no_channels s \<Longrightarrow> check_alerts now s c w = w"
  by (simp add: check_alerts_def)

theorem check_alerts_no_channels_witness:
  "no_channels no_channel_server
   \<and> is_alert_enabled no_channel_server ''memory_errors''
   \<and> check_alerts 5 no_channel_server client_down empty_world = empty_world"
proof -
  have h: "no_channels no_channel_server"
    by (simp add: no_channels_def no_channel_server_def)
  have e: "is_alert_enabled no_channel_server ''memory_errors''"
    by (simp add: is_alert_enabled_def no_channel_server_def)
  from check_alerts_no_channels [OF h, of 5 client_down empty_world] h e
  show ?thesis by simp
qed

lemma check_alerts_blocks:
  "check_alerts now s c w =
     (if no_channels s then w else run_blocks now s (alert_blocks c) w)"
  by (simp add: check_alerts_def alert_blocks_def Let_def)

lemma filter_live_other_kind:
  assumes "j \<noteq> k" and "\<And>a. alert_type (f a) = alert_type a"
  shows "filter (is_live sid k) (map (\<lambda>a. if is_live sid j a then f a else a) rows)
       = filter (is_live sid k) rows"
  using assms by (induction rows) (auto simp: is_live_def)

lemma is_live_new_row:
  "j \<noteq> k \<Longrightarrow> \<not> is_live sid k \<lparr>alert_server_id = x, alert_type = j, message = m,
      first_triggered_at = t, last_updated_at = t', cleared_at = c, cleared_by = b\<rparr>"
  by (simp add: is_live_def)

lemma activation_notes_frame [simp]:
  "activation_notes k (w\<lparr>alerts := rows\<rparr>) = activation_notes k w"
  "activation_notes k (w\<lparr>queries := qs\<rparr>) = activation_notes k w"
  by (simp_all add: activation_notes_def)

lemma live_alerts_frame [simp]:
  "live_alerts (w\<lparr>queries := qs\<rparr>) sid k = live_alerts w sid k"
  by (simp_all add: live_alerts_def)

lemma send_alert_notification_frame [simp]:
  "queries (send_alert_notification s ty msg c w) = queries w"
  "live_alerts (send_alert_notification s ty msg c w) sid k = live_alerts w sid k"
  by (simp_all add: send_alert_notification_def live_alerts_def Let_def)

lemma send_alert_notification_notes:
  "ty \<noteq> k \<or> c \<Longrightarrow>
     activation_notes k (send_alert_notification s ty msg c w) = activation_notes k w"
  by (auto simp: send_alert_notification_def activation_notes_def Let_def)

lemma activate_alert_queries:
  "activate_alert now s j msg w = Inr w' \<Longrightarrow> queries w' = queries w"
  by (auto simp: activate_alert_def split: sum.splits option.splits if_splits)

lemma clear_alert_queries:
  "clear_alert_if_active now s j actor w = Inr w' \<Longrightarrow> queries w' = queries w"
  by (auto simp: clear_alert_if_active_def split: sum.splits option.splits if_splits)

lemma activate_alert_other_kind:
  assumes "activate_alert now s j msg w = Inr w'" and "j \<noteq> k"
  shows "live_alerts w' (server_id s) k = live_alerts w (server_id s) k"
    and "activation_notes k w' = activation_notes k w"
  using assms
  by (auto simp: activate_alert_def filter_live_other_kind is_live_new_row
      send_alert_notification_notes live_alerts_def
      split: sum.splits option.splits if_splits)

lemma clear_alert_other_kind:
  assumes "clear_alert_if_active now s j actor w = Inr w'" and "j \<noteq> k"
  shows "live_alerts w' (server_id s) k = live_alerts w (server_id s) k"
    and "activation_notes k w' = activation_notes k w"
  using assms
  by (auto simp: clear_alert_if_active_def filter_live_other_kind
      send_alert_notification_notes live_alerts_def
      split: sum.splits option.splits if_splits)

lemma clear_alert_same_kind:
  assumes "clear_alert_if_active now s k actor w = Inr w'"
  shows "set (live_alerts w' (server_id s) k) \<subseteq> set (live_alerts w (server_id s) k)"
    and "activation_notes k w' = activation_notes k w"
proof -
  let ?upd = "\<lambda>a. if is_live (server_id s) k a
                then a\<lparr>cleared_at := Some now, cleared_by := Some actor, last_updated_at := now\<rparr>
                else a"
  from assms consider (same) "w' = w"
    | (cleared) m where "w' = send_alert_notification s k m True (w\<lparr>alerts := map ?upd (alerts w)\<rparr>)"
    by (auto simp: clear_alert_if_active_def split: sum.splits option.splits)
  then have "set (live_alerts w' (server_id s) k) \<subseteq> set (live_alerts w (server_id s) k)
      \<and> activation_notes k w' = activation_notes k w"
  proof cases
    case same
    then show ?thesis by simp
  next
    case cleared
    then have "live_alerts w' (server_id s) k = []"
      by (simp add: live_alerts_def filter_live_after_clear)
    with cleared show ?thesis by (simp add: send_alert_notification_notes)
  qed
  then show "set (live_alerts w' (server_id s) k) \<subseteq> set (live_alerts w (server_id s) k)"
    and "activation_notes k w' = activation_notes k w" by simp_all
qed

lemma alert_check_cases:
  obtains (disabled) "\<not> is_alert_enabled s kind"
      "alert_check now s kind qname answer detect prefix w = w"
    | (swallowed) "is_alert_enabled s kind"
      "alert_check now s kind qname answer detect prefix w = w\<lparr>queries := queries w @ [qname]\<rparr>"
    | (activated) status w2 where "is_alert_enabled s kind" "answer = Inr status"
      "status \<noteq> []" "detect status"
      "activate_alert now s kind (prefix @ [CHR 0x0A] @ status)
         (w\<lparr>queries := queries w @ [qname]\<rparr>) = Inr w2"
      "alert_check now s kind qname answer detect prefix w = w2"
    | (cleared) status w2 where "is_alert_enabled s kind" "answer = Inr status"
      "\<not> (status \<noteq> [] \<and> detect status)"
      "clear_alert_if_active now s kind ''auto''
         (w\<lparr>queries := queries w @ [qname]\<rparr>) = Inr w2"
      "alert_check now s kind qname answer detect prefix w = w2"
proof (cases "is_alert_enabled s kind")
  case False
  then show ?thesis using disabled by (simp add: alert_check_def)
next
  case en: True
  show ?thesis
  proof (cases answer)
    case (Inl e)
    with en show ?thesis using swallowed by (simp add: alert_check_def Let_def)
  next
    case (Inr status)
    show ?thesis
    proof (cases "status \<noteq> [] \<and> detect status")
      case True
      show ?thesis
      proof (cases "activate_alert now s kind (prefix @ [CHR 0x0A] @ status)
                      (w\<lparr>queries := queries w @ [qname]\<rparr>)")
        case (Inl e)
        with en Inr True show ?thesis using swallowed by (simp add: alert_check_def Let_def)
      next
        case r: (Inr w2)
        with en Inr True show ?thesis using activated [of status w2]
          by (simp add: alert_check_def Let_def)
      qed
    next
      case False
      then have sel: "(if status \<noteq> [] \<and> detect status then X else Y) = Y"
        for X Y :: "py_error + world"
        by (rule if_not_P)
      show ?thesis
      proof (cases "clear_alert_if_active now s kind ''auto''
                      (w\<lparr>queries := queries w @ [qname]\<rparr>)")
        case (Inl e)
        with en Inr show ?thesis using swallowed by (simp add: alert_check_def Let_def sel)
      next
        case r: (Inr w2)
        with en Inr show ?thesis using cleared [of status w2] False
          by (simp add: alert_check_def Let_def sel)
      qed
    qed
  qed
qed

lemma alert_check_queries:
  "queries (alert_check now s kind qname answer detect prefix w) =
     queries w @ (if is_alert_enabled s kind then [qname] else [])"
  by (cases rule: alert_check_cases [of s kind now qname answer detect prefix w])
     (auto dest: activate_alert_queries clear_alert_queries)

lemma alert_check_other_kind:
  assumes "j \<noteq> k"
  shows "live_alerts (alert_check now s j qname answer detect prefix w) (server_id s) k
           = live_alerts w (server_id s) k
       \<and> activation_notes k (alert_check now s j qname answer detect prefix w)
           = activation_notes k w"
proof (cases rule: alert_check_cases [of s j now qname answer detect prefix w])
  case disabled
  then show ?thesis by simp
next
  case swallowed
  then show ?thesis by simp
next
  case (activated status w2)
  from activate_alert_other_kind [OF activated(5) assms] activated(6)
  show ?thesis by simp
next
  case (cleared status w2)
  from clear_alert_other_kind [OF cleared(4) assms] cleared(5)
  show ?thesis by simp
qed

lemma alert_check_failed:
  assumes "answer = Inr [] \<or> isl answer"
  shows "set (live_alerts (alert_check now s k qname answer detect prefix w) (server_id s) k)
           \<subseteq> set (live_alerts w (server_id s) k)
       \<and> activation_notes k (alert_check now s k qname answer detect prefix w)
           = activation_notes k w"
proof (cases rule: alert_check_cases [of s k now qname answer detect prefix w])
  case disabled
  then show ?thesis by simp
next
  case swallowed
  then show ?thesis by simp
next
  case (activated status w2)
  with assms show ?thesis by auto
next
  case (cleared status w2)
  from clear_alert_same_kind [OF cleared(4)] cleared(5)
  show ?thesis by simp
qed

lemma run_blocks_queries:
  "queries (run_blocks now s bs w) =
     queries w @ map (\<lambda>b. fst (snd b)) (filter (\<lambda>b. is_alert_enabled s (fst b)) bs)"
proof (induction bs arbitrary: w)
  case Nil
  then show ?case by simp
next
  case (Cons b bs)
  obtain kind qname answer detect prefix where b: "b = (kind, qname, answer, detect, prefix)"
    by (cases b)
  show ?case unfolding b by (simp add: Cons.IH alert_check_queries)
qed

lemma run_blocks_failed:
  assumes "\<forall>b \<in> set bs. fst b = k \<longrightarrow> fst (snd (snd b)) = Inr [] \<or> isl (fst (snd (snd b)))"
  shows "set (live_alerts (run_blocks now s bs w) (server_id s) k)
           \<subseteq> set (live_alerts w (server_id s) k)
       \<and> activation_notes k (run_blocks now s bs w) = activation_notes k w"
  using assms
proof (induction bs arbitrary: w)
  case Nil
  then show ?case by simp
next
  case (Cons b bs)
  obtain kind qname answer detect prefix where b: "b = (kind, qname, answer, detect, prefix)"
    by (cases b)
  let ?w1 = "alert_check now s kind qname answer detect prefix w"
  have step: "set (live_alerts ?w1 (server_id s) k) \<subseteq> set (live_alerts w (server_id s) k)
      \<and> activation_notes k ?w1 = activation_notes k w"
  proof (cases "kind = k")
    case True
    with Cons.prems b have "answer = Inr [] \<or> isl answer" by simp
    with True show ?thesis using alert_check_failed [of answer now s k] by simp
  next
    case False
    then show ?thesis using alert_check_other_kind [of kind k] by simp
  qed
  from Cons.prems have "\<forall>b \<in> set bs. fst b = k \<longrightarrow>
      fst (snd (snd b)) = Inr [] \<or> isl (fst (snd (snd b)))" by simp
  from Cons.IH [OF this, of ?w1] step b show ?case by auto
qed

lemma or_empty_failed: "isl r \<Longrightarrow> or_empty r = Inr [] \<or> isl (or_empty r)"
  by (cases r) (auto simp: or_empty_def split: py_error.splits)

lemma alert_blocks_failed:
  assumes "query_fails c k"
  shows "\<forall>b \<in> set (alert_blocks c). fst b = k \<longrightarrow>
           fst (snd (snd b)) = Inr [] \<or> isl (fst (snd (snd b)))"
proof -
  have i: "query_chassis_intrusion c = Inr [] \<or> isl (query_chassis_intrusion c)"
    if "query_fails c ''intrusion''"
  proof (cases "sdr_physical_security c")
    case (Inl e)
    show ?thesis
    proof (cases "\<exists>m. e = IPMICommandError m")
      case True
      with Inl that have "isl (sdr_get_chassis_intrusion c)"
        by (auto simp: query_fails_def)
      from or_empty_failed [OF this] True Inl show ?thesis
        by (auto simp: query_chassis_intrusion_def)
    next
      case False
      with Inl show ?thesis
        by (cases e) (auto simp: query_chassis_intrusion_def)
    qed
  next
    case (Inr out)
    with that show ?thesis by (simp add: query_fails_def)
  qed
  from assms i show ?thesis
    by (auto simp: alert_blocks_def query_fails_def query_memory_status_def
        query_power_supply_status_def query_voltage_status_def
        query_system_events_def or_empty_failed split: if_splits)
qed

section \<open>Alert table: the uniqueness invariant\<close>

lemma unique_rows_filter_key:
  "unique_rows rows \<Longrightarrow> length (filter (\<lambda>a. alert_key a = key) rows) \<le> 1"
proof (induction rows)
  case Nil
  then show ?case by simp
next
  case (Cons a rows)
  then have d: "alert_key a \<notin> alert_key ` set rows" and u: "unique_rows rows"
    by (simp_all add: unique_rows_def)
  show ?case
  proof (cases "alert_key a = key")
    case True
    have "\<forall>x \<in> set rows. alert_key x \<noteq> key"
    proof
      fix x assume "x \<in> set rows"
      then have "alert_key x \<in> alert_key ` set rows" by (rule imageI)
      with d True show "alert_key x \<noteq> key" by metis
    qed
    then have "filter (\<lambda>a. alert_key a = key) rows = []"
      by (simp add: filter_empty_conv)
    with True show ?thesis by simp
  next
    case False
    with Cons.IH [OF u] show ?thesis by simp
  qed
qed

lemma unique_rows_live_le_1:
  assumes "unique_rows (alerts w)"
  shows "length (live_alerts w sid ty) \<le> 1"
proof -
  have "live_alerts w sid ty
      = filter (\<lambda>a. cleared_at a = None) (filter (\<lambda>a. alert_key a = (sid, ty)) (alerts w))"
    by (auto simp: live_alerts_def is_live_def alert_key_def intro: filter_cong)
  then have "length (live_alerts w sid ty)
      \<le> length (filter (\<lambda>a. alert_key a = (sid, ty)) (alerts w))"
    by (simp only: length_filter_le)
  with unique_rows_filter_key [OF assms, of "(sid, ty)"] show ?thesis by linarith
qed

lemma unique_rows_scalar:
  assumes "unique_rows (alerts w)"
  shows "scalar_one_or_none (live_alerts w sid ty) = Inr None \<and> live_alerts w sid ty = []
       \<or> (\<exists>a. scalar_one_or_none (live_alerts w sid ty) = Inr (Some a)
              \<and> live_alerts w sid ty = [a])"
proof -
  from unique_rows_live_le_1 [OF assms, of sid ty]
  consider "live_alerts w sid ty = []" | a where "live_alerts w sid ty = [a]"
    by (cases "live_alerts w sid ty"; cases "tl (live_alerts w sid ty)") auto
  then show ?thesis by cases (auto simp: scalar_one_or_none_def)
qed

lemma unique_rows_map:
  assumes "\<And>a. alert_key (f a) = alert_key a"
  shows "unique_rows (map f rows) = unique_rows rows"
proof -
  have "map alert_key (map f rows) = map alert_key rows" using assms by simp
  then show ?thesis by (simp only: unique_rows_def)
qed

lemma activate_alert_unique:
  assumes "activate_alert now s ty msg w = Inr w'" and "unique_rows (alerts w)"
  shows "unique_rows (alerts w')"
proof -
  let ?upd = "\<lambda>a. if is_live (server_id s) ty a then a\<lparr>last_updated_at := now\<rparr> else a"
  from assms(1) consider (upd) "alerts w' = map ?upd (alerts w)"
    | (ins) new where "alerts w' = alerts w @ [new]" "alert_key new = (server_id s, ty)"
        "\<not> violates_unique (alerts w) (server_id s) ty"
    by (auto simp: activate_alert_def alert_key_def split: sum.splits option.splits if_splits)
  then show ?thesis
  proof cases
    case upd
    have "unique_rows (map ?upd (alerts w)) = unique_rows (alerts w)"
      by (rule unique_rows_map) (simp add: alert_key_def)
    with upd assms(2) show ?thesis by simp
  next
    case ins
    from ins(3) have "(server_id s, ty) \<notin> alert_key ` set (alerts w)"
      by (auto simp: violates_unique_def alert_key_def)
    with ins assms(2) show ?thesis by (simp add: unique_rows_def)
  qed
qed

lemma clear_alert_unique:
  assumes "clear_alert_if_active now s ty actor w = Inr w'" and "unique_rows (alerts w)"
  shows "unique_rows (alerts w')"
proof -
  let ?upd = "\<lambda>a. if is_live (server_id s) ty a
      then a\<lparr>cleared_at := Some now, cleared_by := Some actor, last_updated_at := now\<rparr> else a"
  from assms(1) consider (same) "alerts w' = alerts w" | (upd) "alerts w' = map ?upd (alerts w)"
    by (auto simp: clear_alert_if_active_def split: sum.splits option.splits)
  then show ?thesis
  proof cases
    case same
    with assms(2) show ?thesis by simp
  next
    case upd
    have "unique_rows (map ?upd (alerts w)) = unique_rows (alerts w)"
      by (rule unique_rows_map) (simp add: alert_key_def)
    with upd assms(2) show ?thesis by simp
  qed
qed

lemma alert_check_unique:
  assumes "unique_rows (alerts w)"
  shows "unique_rows (alerts (alert_check now s kind qname answer detect prefix w))"
proof (cases rule: alert_check_cases [of s kind now qname answer detect prefix w])
  case disabled
  with assms show ?thesis by simp
next
  case swallowed
  with assms show ?thesis by simp
next
  case (activated status w2)
  from activate_alert_unique [OF activated(5)] assms activated(6) show ?thesis by simp
next
  case (cleared status w2)
  from clear_alert_unique [OF cleared(4)] assms cleared(5) show ?thesis by simp
qed

lemma run_blocks_unique:
  "unique_rows (alerts w) \<Longrightarrow> unique_rows (alerts (run_blocks now s bs w))"
proof (induction bs arbitrary: w)
  case Nil
  then show ?case by simp
next
  case (Cons b bs)
  obtain kind qname answer detect prefix where b: "b = (kind, qname, answer, detect, prefix)"
    by (cases b)
  show ?case unfolding b using Cons.IH [OF alert_check_unique [OF Cons.prems]] by simp
qed

lemma check_alerts_unique:
  "unique_rows (alerts w) \<Longrightarrow> unique_rows (alerts (check_alerts now s c w))"
  by (simp add: check_alerts_blocks run_blocks_unique)

section \<open>Alert evaluation: the view of one kind\<close>

lemma pair_rows_frame [simp]:
  "pair_rows sid k (w\<lparr>queries := qs\<rparr>) = pair_rows sid k w"
  "pair_rows sid k (w\<lparr>notifications := ns\<rparr>) = pair_rows sid k w"
  "pair_rows sid k (w\<lparr>fan_commands := fs\<rparr>) = pair_rows sid k w"
  "pair_rows sid k (send_alert_notification s ty msg c w) = pair_rows sid k w"
  by (simp_all add: pair_rows_def)

lemma kind_notes_frame [simp]:
  "kind_notes k (w\<lparr>queries := qs\<rparr>) = kind_notes k w"
  "kind_notes k (w\<lparr>alerts := rows\<rparr>) = kind_notes k w"
  "kind_notes k (w\<lparr>fan_commands := fs\<rparr>) = kind_notes k w"
  by (simp_all add: kind_notes_def)

lemma kind_notes_send:
  "kind_notes k (send_alert_notification s ty msg c w) =
     kind_notes k w @
       (if ty = k then [\<lparr>note_server_id = server_id s, note_alert_type = ty, note_message = msg,
                         note_is_cleared = c, note_targets = dispatch_targets s w\<rparr>] else [])"
  by (simp add: kind_notes_def send_alert_notification_entry)

lemma dispatch_targets_send [simp]:
  "dispatch_targets s' (send_alert_notification s ty msg c w) = dispatch_targets s' w"
  by (simp add: send_alert_notification_def dispatch_targets_def Let_def split: option.splits)

lemma live_alerts_pair_rows:
  "live_alerts w sid k = filter (\<lambda>a. cleared_at a = None) (pair_rows sid k w)"
  by (auto simp: live_alerts_def pair_rows_def is_live_def intro: filter_cong)

lemma violates_unique_pair_rows:
  "violates_unique (alerts w) sid k \<longleftrightarrow> pair_rows sid k w \<noteq> []"
  by (auto simp: violates_unique_def pair_rows_def filter_empty_conv)

lemma pair_rows_update:
  assumes "\<And>a. alert_server_id (f a) = alert_server_id a \<and> alert_type (f a) = alert_type a"
  shows "pair_rows sid k (w\<lparr>alerts := map (\<lambda>a. if is_live sid' j a then f a else a) (alerts w)\<rparr>)
       = map (\<lambda>a. if is_live sid' j a then f a else a) (pair_rows sid k w)"
  unfolding pair_rows_def using assms by (induction "alerts w" arbitrary: w) (auto simp: filter_map comp_def)


lemma pair_rows_other_update:
  assumes "j \<noteq> k" and "\<And>a. alert_type (f a) = alert_type a"
  shows "pair_rows sid k (w\<lparr>alerts := map (\<lambda>a. if is_live sid' j a then f a else a) (alerts w)\<rparr>)
       = pair_rows sid k w"
proof -
  have "filter (\<lambda>a. alert_server_id a = sid \<and> alert_type a = k)
          (map (\<lambda>a. if is_live sid' j a then f a else a) rows)
      = filter (\<lambda>a. alert_server_id a = sid \<and> alert_type a = k) rows" for rows
    using assms by (induction rows) (auto simp: is_live_def)
  then show ?thesis by (simp add: pair_rows_def)
qed

lemma activate_alert_view_frame:
  assumes "activate_alert now s j msg w = Inr w'" and "j \<noteq> k"
  shows "kind_view sid k w' = kind_view sid k w"
  using assms
  by (auto simp: activate_alert_def kind_view_def pair_rows_other_update kind_notes_send
      split: sum.splits option.splits if_splits)
     (simp add: pair_rows_def)

lemma clear_alert_view_frame:
  assumes "clear_alert_if_active now s j actor w = Inr w'" and "j \<noteq> k"
  shows "kind_view sid k w' = kind_view sid k w"
  using assms
  by (auto simp: clear_alert_if_active_def kind_view_def pair_rows_other_update kind_notes_send
      split: sum.splits option.splits if_splits)

lemma activate_alert_targets:
  "activate_alert now s j msg w = Inr w' \<Longrightarrow> dispatch_targets s' w' = dispatch_targets s' w"
  by (auto simp: activate_alert_def split: sum.splits option.splits if_splits)

lemma clear_alert_targets:
  "clear_alert_if_active now s j actor w = Inr w' \<Longrightarrow> dispatch_targets s' w' = dispatch_targets s' w"
  by (auto simp: clear_alert_if_active_def split: sum.splits option.splits if_splits)

lemma alert_check_targets:
  "dispatch_targets s' (alert_check now s j qname answer detect prefix w) = dispatch_targets s' w"
  by (cases rule: alert_check_cases [of s j now qname answer detect prefix w])
     (auto dest: activate_alert_targets clear_alert_targets)

lemma alert_check_view_frame:
  assumes "j \<noteq> k"
  shows "kind_view sid k (alert_check now s j qname answer detect prefix w) = kind_view sid k w"
proof (cases rule: alert_check_cases [of s j now qname answer detect prefix w])
  case disabled
  then show ?thesis by simp
next
  case swallowed
  then show ?thesis by (simp add: kind_view_def)
next
  case (activated status w2)
  from activate_alert_view_frame [OF activated(5) assms, of sid] activated(6)
  show ?thesis by (simp add: kind_view_def)
next
  case (cleared status w2)
  from clear_alert_view_frame [OF cleared(4) assms, of sid] cleared(5)
  show ?thesis by (simp add: kind_view_def)
qed


lemma activate_alert_view:
  "kind_view (server_id s) k (case activate_alert now s k msg w of Inl e \<Rightarrow> w | Inr w' \<Rightarrow> w') =
     (case scalar_one_or_none
             (filter (\<lambda>a. cleared_at a = None) (pair_rows (server_id s) k w)) of
        Inl e \<Rightarrow> (pair_rows (server_id s) k w, kind_notes k w)
      | Inr (Some x) \<Rightarrow>
          (map (\<lambda>a. if is_live (server_id s) k a then a\<lparr>last_updated_at := now\<rparr> else a)
             (pair_rows (server_id s) k w), kind_notes k w)
      | Inr None \<Rightarrow>
          if pair_rows (server_id s) k w \<noteq> [] then (pair_rows (server_id s) k w, kind_notes k w)
          else
            (pair_rows (server_id s) k w @
               [\<lparr>alert_server_id = server_id s, alert_type = k, message = msg,
                 first_triggered_at = now, last_updated_at = now,
                 cleared_at = None, cleared_by = None\<rparr>],
             kind_notes k w @
               [\<lparr>note_server_id = server_id s, note_alert_type = k, note_message = msg,
                 note_is_cleared = False, note_targets = dispatch_targets s w\<rparr>]))"
proof -
  have app: "pair_rows (server_id s) k (w\<lparr>alerts := alerts w @ [r]\<rparr>) = pair_rows (server_id s) k w @ [r]"
    if "alert_server_id r = server_id s" "alert_type r = k" for r
    using that by (simp add: pair_rows_def)
  show ?thesis
    unfolding activate_alert_def live_alerts_pair_rows violates_unique_pair_rows
    by (simp add: kind_view_def pair_rows_update kind_notes_send app
        split: sum.splits option.splits)
qed

lemma clear_alert_view:
  "kind_view (server_id s) k
     (case clear_alert_if_active now s k actor w of Inl e \<Rightarrow> w | Inr w' \<Rightarrow> w') =
     (case scalar_one_or_none
             (filter (\<lambda>a. cleared_at a = None) (pair_rows (server_id s) k w)) of
        Inl e \<Rightarrow> (pair_rows (server_id s) k w, kind_notes k w)
      | Inr None \<Rightarrow> (pair_rows (server_id s) k w, kind_notes k w)
      | Inr (Some x) \<Rightarrow>
          (map (\<lambda>a. if is_live (server_id s) k a
                     then a\<lparr>cleared_at := Some now, cleared_by := Some actor,
                            last_updated_at := now\<rparr>
                     else a)
             (pair_rows (server_id s) k w),
           kind_notes k w @
             [\<lparr>note_server_id = server_id s, note_alert_type = k, note_message = message x,
               note_is_cleared = True, note_targets = dispatch_targets s w\<rparr>]))"
  unfolding clear_alert_if_active_def live_alerts_pair_rows
  by (simp add: kind_view_def pair_rows_update kind_notes_send
      split: sum.splits option.splits)

lemma activate_alert_view_cong:
  assumes "kind_view (server_id s) k w1 = kind_view (server_id s) k w2"
    and "dispatch_targets s w1 = dispatch_targets s w2"
  shows "kind_view (server_id s) k
           (case activate_alert now s k msg w1 of Inl e \<Rightarrow> w1 | Inr w' \<Rightarrow> w')
       = kind_view (server_id s) k
           (case activate_alert now s k msg w2 of Inl e \<Rightarrow> w2 | Inr w' \<Rightarrow> w')"
proof -
  from assms(1) have "pair_rows (server_id s) k w1 = pair_rows (server_id s) k w2"
      "kind_notes k w1 = kind_notes k w2"
    by (simp_all add: kind_view_def)
  with assms(2) show ?thesis by (simp only: activate_alert_view)
qed

lemma clear_alert_view_cong:
  assumes "kind_view (server_id s) k w1 = kind_view (server_id s) k w2"
    and "dispatch_targets s w1 = dispatch_targets s w2"
  shows "kind_view (server_id s) k
           (case clear_alert_if_active now s k actor w1 of Inl e \<Rightarrow> w1 | Inr w' \<Rightarrow> w')
       = kind_view (server_id s) k
           (case clear_alert_if_active now s k actor w2 of Inl e \<Rightarrow> w2 | Inr w' \<Rightarrow> w')"
proof -
  from assms(1) have "pair_rows (server_id s) k w1 = pair_rows (server_id s) k w2"
      "kind_notes k w1 = kind_notes k w2"
    by (simp_all add: kind_view_def)
  with assms(2) show ?thesis by (simp only: clear_alert_view)
qed


lemma alert_check_view:
  assumes "is_alert_enabled s k"
  shows "kind_view (server_id s) k (alert_check now s k qname answer detect prefix w) =
         kind_view (server_id s) k
           (case answer of
              Inl e \<Rightarrow> w
            | Inr status \<Rightarrow>
                (case (if status \<noteq> [] \<and> detect status
                       then activate_alert now s k (prefix @ [CHR 0x0A] @ status) w
                       else clear_alert_if_active now s k ''auto'' w) of
                   Inl e \<Rightarrow> w
                 | Inr w' \<Rightarrow> w'))"
proof (cases answer)
  case (Inl e)
  with assms show ?thesis by (simp add: alert_check_def kind_view_def)
next
  case (Inr status)
  let ?w1 = "w\<lparr>queries := queries w @ [qname]\<rparr>"
  have v: "kind_view (server_id s) k ?w1 = kind_view (server_id s) k w"
    by (simp add: kind_view_def)
  have t: "dispatch_targets s ?w1 = dispatch_targets s w" by simp
  show ?thesis
  proof (cases "status \<noteq> [] \<and> detect status")
    case True
    then have sel: "(if status \<noteq> [] \<and> detect status then X else Y) = X"
      for X Y :: "py_error + world"
      by (rule if_P)
    from assms Inr have "alert_check now s k qname answer detect prefix w =
        (case activate_alert now s k (prefix @ [CHR 0x0A] @ status) ?w1 of
           Inl e \<Rightarrow> ?w1 | Inr w' \<Rightarrow> w')"
      by (simp add: alert_check_def Let_def sel)
    with activate_alert_view_cong [OF v t] Inr show ?thesis by (simp add: sel)
  next
    case False
    then have sel: "(if status \<noteq> [] \<and> detect status then X else Y) = Y"
      for X Y :: "py_error + world"
      by (rule if_not_P)
    from assms Inr have "alert_check now s k qname answer detect prefix w =
        (case clear_alert_if_active now s k ''auto'' ?w1 of
           Inl e \<Rightarrow> ?w1 | Inr w' \<Rightarrow> w')"
      by (simp add: alert_check_def Let_def sel)
    with clear_alert_view_cong [OF v t] Inr show ?thesis by (simp add: sel)
  qed
qed

lemma alert_check_view_cong:
  assumes "kind_view (server_id s) k w1 = kind_view (server_id s) k w2"
    and "dispatch_targets s w1 = dispatch_targets s w2"
  shows "kind_view (server_id s) k (alert_check now s k qname answer detect prefix w1)
       = kind_view (server_id s) k (alert_check now s k qname answer detect prefix w2)"
proof (cases "is_alert_enabled s k")
  case False
  with assms(1) show ?thesis by (simp add: alert_check_def)
next
  case True
  show ?thesis
  proof (cases answer)
    case (Inl e)
    with assms(1) show ?thesis unfolding alert_check_view [OF True] by simp
  next
    case (Inr status)
    show ?thesis
    proof (cases "status \<noteq> [] \<and> detect status")
      case c: True
      then have sel: "(if status \<noteq> [] \<and> detect status then X else Y) = X"
        for X Y :: "py_error + world"
        by (rule if_P)
      from activate_alert_view_cong [OF assms] Inr show ?thesis
        unfolding alert_check_view [OF True] by (simp add: sel)
    next
      case c: False
      then have sel: "(if status \<noteq> [] \<and> detect status then X else Y) = Y"
        for X Y :: "py_error + world"
        by (rule if_not_P)
      from clear_alert_view_cong [OF assms] Inr show ?thesis
        unfolding alert_check_view [OF True] by (simp add: sel)
    qed
  qed
qed

lemma run_blocks_targets:
  "dispatch_targets s' (run_blocks now s bs w) = dispatch_targets s' w"
proof (induction bs arbitrary: w)
  case Nil
  then show ?case by simp
next
  case (Cons b bs)
  obtain kind qname answer detect prefix where b: "b = (kind, qname, answer, detect, prefix)"
    by (cases b)
  show ?case unfolding b by (simp add: Cons.IH alert_check_targets)
qed

lemma run_blocks_view_frame:
  "k \<notin> fst ` set bs \<Longrightarrow> kind_view sid k (run_blocks now s bs w) = kind_view sid k w"
proof (induction bs arbitrary: w)
  case Nil
  then show ?case by simp
next
  case (Cons b bs)
  obtain kind qname answer detect prefix where b: "b = (kind, qname, answer, detect, prefix)"
    by (cases b)
  from Cons.prems b have ne: "kind \<noteq> k" and rest: "k \<notin> fst ` set bs" by auto
  show ?case unfolding b
    by (simp add: Cons.IH [OF rest] alert_check_view_frame [OF ne])
qed

lemma run_blocks_view:
  assumes "distinct (map fst bs)" and "(k, qname, answer, detect, prefix) \<in> set bs"
  shows "kind_view (server_id s) k (run_blocks now s bs w)
       = kind_view (server_id s) k (alert_check now s k qname answer detect prefix w)"
  using assms
proof (induction bs arbitrary: w)
  case Nil
  then show ?case by simp
next
  case (Cons b bs)
  obtain kind q a d p where b: "b = (kind, q, a, d, p)"
    by (cases b)
  from Cons.prems(1) b have nin: "kind \<notin> fst ` set bs" and dist: "distinct (map fst bs)"
    by simp_all
  show ?case
  proof (cases "b = (k, qname, answer, detect, prefix)")
    case True
    with b nin have "k \<notin> fst ` set bs" by simp
    from run_blocks_view_frame [OF this] True show ?thesis by simp
  next
    case False
    with Cons.prems(2) have mem: "(k, qname, answer, detect, prefix) \<in> set bs" by simp
    then have "k \<in> fst ` set bs" by (rule rev_image_eqI) simp
    with nin have ne: "kind \<noteq> k" by auto
    let ?w1 = "alert_check now s kind q a d p w"
    have "kind_view (server_id s) k (run_blocks now s bs ?w1)
        = kind_view (server_id s) k (alert_check now s k qname answer detect prefix ?w1)"
      by (rule Cons.IH [OF dist mem])
    also have "\<dots> = kind_view (server_id s) k (alert_check now s k qname answer detect prefix w)"
      by (rule alert_check_view_cong)
         (simp_all add: alert_check_view_frame [OF ne] alert_check_targets)
    finally show ?thesis unfolding b by simp
  qed
qed

lemma alert_blocks_distinct: "distinct (map fst (alert_blocks c))"
  by (simp add: alert_blocks_def)

lemma check_alerts_view:
  assumes "\<not> no_channels s" and "is_alert_enabled s k"
    and "(k, qname, answer, detect, prefix) \<in> set (alert_blocks c)"
  shows "kind_view (server_id s) k (check_alerts now s c w) =
         kind_view (server_id s) k
           (case answer of
              Inl e \<Rightarrow> w
            | Inr status \<Rightarrow>
                (case (if status \<noteq> [] \<and> detect status
                       then activate_alert now s k (prefix @ [CHR 0x0A] @ status) w
                       else clear_alert_if_active now s k ''auto'' w) of
                   Inl e \<Rightarrow> w
                 | Inr w' \<Rightarrow> w'))"
proof -
  have "check_alerts now s c w = run_blocks now s (alert_blocks c) w"
    using assms(1) by (simp add: check_alerts_blocks)
  then show ?thesis
    using run_blocks_view [OF alert_blocks_distinct assms(3), of s now w]
      alert_check_view [OF assms(2), of now qname answer detect prefix w]
    by simp
qed

section \<open>Poll cycle: completion\<close>

lemma set_fan_speed_alerts:
  "alerts (snd (set_fan_speed s c rpm fan_id w)) = alerts w"
  by (simp add: set_fan_speed_def Let_def split: sum.splits)

lemma apply_overrides_alerts:
  "alerts (snd (apply_overrides s c t base thr ovs w)) = alerts w"
proof (induction ovs arbitrary: w)
  case Nil
  then show ?case by simp
next
  case (Cons ov ovs)
  let ?rpm = "if thr \<noteq> None \<and> t \<le> the thr then the (min_rpm ov) else base"
  obtain e w1 where r: "set_fan_speed s c ?rpm (Some (fan_identifier ov)) w = (e, w1)"
    by (cases "set_fan_speed s c ?rpm (Some (fan_identifier ov)) w")
  from set_fan_speed_alerts [of s c ?rpm "Some (fan_identifier ov)" w] r
  have a: "alerts w1 = alerts w" by simp
  show ?case
  proof (cases "fan_identifier ov = [] \<or> min_rpm ov = None")
    case True
    then show ?thesis using Cons.IH [of w] by auto
  next
    case False
    then obtain y where ov: "fan_identifier ov \<noteq> []" "min_rpm ov = Some y" by auto
    show ?thesis using ov r a Cons.IH [of w1]
      by (cases e) simp_all
  qed
qed

lemma fan_control_alerts:
  "alerts (snd (fan_control s c t w)) = alerts w"
proof (cases "calculate_target_rpm s t")
  case None
  then show ?thesis by (simp add: fan_control_def)
next
  case (Some base)
  obtain e w1 where r: "set_fan_speed s c base None w = (e, w1)"
    by (cases "set_fan_speed s c base None w")
  from set_fan_speed_alerts [of s c base None w] r have a: "alerts w1 = alerts w" by simp
  show ?thesis
    using Some r a apply_overrides_alerts [of s c t base "get_first_zone_threshold s" "fan_overrides s" w1]
    by (cases e) (simp_all add: fan_control_def Let_def)
qed

lemma check_critical_temperature_unique:
  assumes "unique_rows (alerts w)"
  shows "unique_rows (alerts (snd (check_critical_temperature now s t w)))"
proof -
  let ?op = "if 80 \<le> t
               then activate_alert now s ''temperature_critical'' ''CPU temperature critical'' w
               else clear_alert_if_active now s ''temperature_critical'' ''auto'' w"
  show ?thesis
  proof (cases "is_alert_enabled s ''temperature_critical''")
    case False
    with assms show ?thesis by (simp add: check_critical_temperature_def)
  next
    case en: True
    show ?thesis
    proof (cases ?op)
      case (Inl e)
      with en assms show ?thesis by (simp add: check_critical_temperature_def)
    next
      case (Inr w1)
      then have "unique_rows (alerts w1)"
        using activate_alert_unique [OF _ assms] clear_alert_unique [OF _ assms]
        by (auto split: if_splits)
      with en Inr show ?thesis by (simp add: check_critical_temperature_def)
    qed
  qed
qed

lemma poll_control_unique:
  assumes "unique_rows (alerts w)"
  shows "unique_rows (alerts (snd (poll_control to_float now s c w)))"
proof -
  let ?w2 = "w\<lparr>queries := queries w @ [''query_temperatures'', ''query_fans'']\<rparr>"
  have u2: "unique_rows (alerts ?w2)" using assms by simp
  have fc: "unique_rows (alerts (snd (fan_control s c t ?w2)))" for t
    using u2 by (simp add: fan_control_alerts)
  show ?thesis
  proof (cases "sdr_temperature c")
    case (Inl e)
    with assms show ?thesis by (simp add: poll_control_def)
  next
    case t: (Inr temperatures)
    show ?thesis
    proof (cases "sdr_fan c")
      case (Inl e)
      with t assms show ?thesis by (simp add: poll_control_def)
    next
      case f: (Inr fans)
      show ?thesis
      proof (cases "parse_cpu_temperature to_float temperatures")
        case (Inl e)
        with t f assms show ?thesis by (simp add: poll_control_def)
      next
        case p: (Inr r)
        show ?thesis
        proof (cases r)
          case None
          with t f p assms show ?thesis by (simp add: poll_control_def)
        next
          case (Some cpu_temp)
          obtain e w3 where r3: "fan_control s c cpu_temp ?w2 = (e, w3)"
            by (cases "fan_control s c cpu_temp ?w2")
          with fc [of cpu_temp] have u3: "unique_rows (alerts w3)" by simp
          show ?thesis
            using t f p Some r3 u3 check_critical_temperature_unique [OF u3, of now s cpu_temp]
            by (cases e) (simp_all add: poll_control_def)
        qed
      qed
    qed
  qed
qed

lemma is_alert_enabled_polled [simp]:
  "is_alert_enabled (s\<lparr>last_successful_poll := t\<rparr>) k = is_alert_enabled s k"
  by (simp add: is_alert_enabled_def)

lemma clear_alert_polled [simp]:
  "clear_alert_if_active now (s\<lparr>last_successful_poll := t\<rparr>) k actor w
     = clear_alert_if_active now s k actor w"
  by (simp add: clear_alert_if_active_def send_alert_notification_def Let_def
      split: sum.splits option.splits)

lemma clear_alert_unique_returns:
  assumes "unique_rows (alerts w)"
  shows "\<exists>w'. clear_alert_if_active now s k actor w = Inr w' \<and> live_alerts w' (server_id s) k = []"
proof -
  from unique_rows_scalar [OF assms, of "server_id s" k]
  show ?thesis
  proof
    assume "scalar_one_or_none (live_alerts w (server_id s) k) = Inr None
        \<and> live_alerts w (server_id s) k = []"
    then have e: "live_alerts w (server_id s) k = []" by simp
    from clear_alert_not_active_noop [OF e, of now actor] e show ?thesis by simp
  next
    assume "\<exists>a. scalar_one_or_none (live_alerts w (server_id s) k) = Inr (Some a)
        \<and> live_alerts w (server_id s) k = [a]"
    then obtain a where "live_alerts w (server_id s) k = [a]" by auto
    from clear_alert_active_once [OF this, of now actor] show ?thesis by auto
  qed
qed

lemma poll_server_success:
  assumes "unique_rows (alerts w)" and "poll_control to_float now s c w = (None, w1)"
  shows "\<exists>w2. poll_server to_float now s c w = Inr (s\<lparr>last_successful_poll := Some now\<rparr>, w2)
            \<and> (is_alert_enabled s ''connectivity''
                 \<longrightarrow> live_alerts w2 (server_id s) ''connectivity'' = [])"
proof -
  from poll_control_unique [OF assms(1), of to_float now s c] assms(2)
  have "unique_rows (alerts w1)" by simp
  then have u: "unique_rows (alerts (check_alerts now s c w1))" by (rule check_alerts_unique)
  have body: "poll_body to_float now s c w = (None, check_alerts now s c w1)"
    using assms(2) by (simp add: poll_body_def)
  from clear_alert_unique_returns [OF u, of now s "''connectivity''" "''auto''"]
  obtain w2 where w2: "clear_alert_if_active now s ''connectivity'' ''auto'' (check_alerts now s c w1) = Inr w2"
      "live_alerts w2 (server_id s) ''connectivity'' = []"
    by auto
  show ?thesis
  proof (cases "is_alert_enabled s ''connectivity''")
    case True
    with body w2 show ?thesis by (simp add: poll_server_def Let_def)
  next
    case False
    with body show ?thesis by (simp add: poll_server_def Let_def)
  qed
qed

section \<open>Alert evaluation: a failed telemetry query\<close>

lemma alert_blocks_answer_failed:
  assumes "(k, qname, answer, detect, prefix) \<in> set (alert_blocks c)" and "query_fails c k"
  shows "answer = Inr [] \<or> isl answer"
  using alert_blocks_failed [OF assms(2)] assms(1) by force

lemma alert_blocks_check_kinds:
  "map (\<lambda>b. (fst b, fst (snd b))) (alert_blocks c) = check_kinds"
  by (simp add: alert_blocks_def check_kinds_def)

text \<open>
  C4, as stated, at a failure that is not an \<^verbatim>\<open>IPMICommandError\<close>. The entity has a live
  memory alert. A cycle in which the condition is absent clears it, and so does a cycle in
  which \<^verbatim>\<open>ipmitool\<close> fails with \<^verbatim>\<open>IPMICommandError\<close>: the client returns the empty
  answer, which is read as "condition absent". A cycle in which the client call raises
  another exception leaves the alert live: the failure is not treated as "condition
  absent", the check is skipped.
\<close>

theorem failed_query_condition_absent_counterexample:
  "is_alert_enabled server_one ''memory_errors''
   \<and> \<not> no_channels server_one
   \<and> query_fails client_memory_error ''memory_errors''
   \<and> query_fails client_memory_fails ''memory_errors''
   \<and> live_alerts world_memory_live 1 ''memory_errors'' \<noteq> []
   \<and> live_alerts (check_alerts 5 server_one client_ok world_memory_live) 1 ''memory_errors'' = []
   \<and> live_alerts (check_alerts 5 server_one client_memory_error world_memory_live) 1
         ''memory_errors'' = []
   \<and> live_alerts (check_alerts 5 server_one client_memory_fails world_memory_live) 1
         ''memory_errors'' = live_alerts world_memory_live 1 ''memory_errors''"
proof -
  have 1: "is_alert_enabled server_one ''memory_errors''"
    by (simp add: is_alert_enabled_def server_one_def)
  have 2: "\<not> no_channels server_one" by (simp add: no_channels_def server_one_def)
  have 3: "query_fails client_memory_error ''memory_errors''"
    by (simp add: query_fails_def client_memory_error_def)
  have 4: "query_fails client_memory_fails ''memory_errors''"
    by (simp add: query_fails_def client_memory_fails_def)
  have 5: "live_alerts world_memory_live 1 ''memory_errors'' \<noteq> []"
    by (simp add: live_alerts_def is_live_def world_memory_live_def)
  have 6: "live_alerts (check_alerts 5 server_one client_ok world_memory_live) 1 ''memory_errors'' = []"
    by code_simp
  have 7: "live_alerts (check_alerts 5 server_one client_memory_error world_memory_live) 1
         ''memory_errors'' = []"
    by code_simp
  have 8: "live_alerts (check_alerts 5 server_one client_memory_fails world_memory_live) 1
         ''memory_errors'' = live_alerts world_memory_live 1 ''memory_errors''"
    by code_simp
  show ?thesis by (intro conjI) (fact 1 2 3 4 5 6 7 8)+
qed

text \<open>
  C4, amended. Let the telemetry query of an enabled kind \<open>k\<close> of the five fail in a cycle
  of an entity with a notification channel; \<open>answer\<close> is what the client call of the kind
  gives the evaluation.

  \<^item> The failure reaches the evaluation as the empty answer (\<^verbatim>\<open>IPMICommandError\<close>, caught
    in the client) or as an exception.
  \<^item> An exception skips the check: the rows and the dispatcher invocations of the kind
    are left as they were.
  \<^item> The empty answer is read as "condition absent": the rows and the invocations of the
    kind are those \<^verbatim>\<open>_clear_alert_if_active\<close> leaves, so a live alert is cleared and its
    cleared message dispatched.
  \<^item> No alert of the kind is raised: no row becomes live, no activation message of the
    kind is dispatched.
  \<^item> The remaining checks are evaluated: for every other enabled kind the rows and the
    invocations of that kind after the cycle are those its own store operation leaves,
    the activation when its answer shows the condition and the clearing otherwise, and
    they are unchanged when its own query raises or the store operation raises.
  \<^item> The queries issued are those of all enabled kinds, in source order.
  \<^item> The cycle does not fail: a poll whose readings, fan control and critical temperature
    check raised nothing returns as a successful poll, with the time of the last
    successful poll set (the table satisfying its uniqueness constraint).
\<close>

theorem failed_query_swallowed:
  assumes "(k, qname, answer, detect, prefix) \<in> set (alert_blocks c)"
    and "is_alert_enabled s k" and "query_fails c k" and "\<not> no_channels s"
  shows "(answer = Inr [] \<or> isl answer)
       \<and> (isl answer \<longrightarrow>
            kind_view (server_id s) k (check_alerts now s c w) = kind_view (server_id s) k w)
       \<and> (answer = Inr [] \<longrightarrow>
            kind_view (server_id s) k (check_alerts now s c w) =
            kind_view (server_id s) k
              (case clear_alert_if_active now s k ''auto'' w of Inl e \<Rightarrow> w | Inr w' \<Rightarrow> w'))
       \<and> set (live_alerts (check_alerts now s c w) (server_id s) k)
           \<subseteq> set (live_alerts w (server_id s) k)
       \<and> activation_notes k (check_alerts now s c w) = activation_notes k w
       \<and> (\<forall>(k', qname', answer', detect', prefix') \<in> set (alert_blocks c).
            k' \<noteq> k \<and> is_alert_enabled s k' \<longrightarrow>
            kind_view (server_id s) k' (check_alerts now s c w) =
            kind_view (server_id s) k'
              (case answer' of
                 Inl e \<Rightarrow> w
               | Inr status \<Rightarrow>
                   (case (if status \<noteq> [] \<and> detect' status
                          then activate_alert now s k' (prefix' @ [CHR 0x0A] @ status) w
                          else clear_alert_if_active now s k' ''auto'' w) of
                      Inl e \<Rightarrow> w
                    | Inr w' \<Rightarrow> w')))
       \<and> queries (check_alerts now s c w)
           = queries w @ map snd (filter (\<lambda>(k', m'). is_alert_enabled s k') check_kinds)
       \<and> qname \<in> set (queries (check_alerts now s c w))
       \<and> (\<forall>to_float w0 w1.
            unique_rows (alerts w0) \<and> poll_control to_float now s c w0 = (None, w1) \<longrightarrow>
            (\<exists>w2. poll_server to_float now s c w0
                     = Inr (s\<lparr>last_successful_poll := Some now\<rparr>, w2)))"
proof -
  let ?cycle = "check_alerts now s c w"
  have run: "?cycle = run_blocks now s (alert_blocks c) w"
    using assms(4) by (simp add: check_alerts_blocks)
  have failed: "answer = Inr [] \<or> isl answer"
    using assms(1,3) by (rule alert_blocks_answer_failed)
  have own: "kind_view (server_id s) k ?cycle =
      kind_view (server_id s) k
        (case answer of
           Inl e \<Rightarrow> w
         | Inr status \<Rightarrow>
             (case (if status \<noteq> [] \<and> detect status
                    then activate_alert now s k (prefix @ [CHR 0x0A] @ status) w
                    else clear_alert_if_active now s k ''auto'' w) of
                Inl e \<Rightarrow> w
              | Inr w' \<Rightarrow> w'))"
    using assms(4,2,1) by (rule check_alerts_view)
  have raised: "kind_view (server_id s) k ?cycle = kind_view (server_id s) k w" if "isl answer"
    using that own by (cases answer) simp_all
  have absent: "kind_view (server_id s) k ?cycle =
      kind_view (server_id s) k
        (case clear_alert_if_active now s k ''auto'' w of Inl e \<Rightarrow> w | Inr w' \<Rightarrow> w')"
    if "answer = Inr []"
    using that own by simp
  have no_alert: "set (live_alerts ?cycle (server_id s) k) \<subseteq> set (live_alerts w (server_id s) k)
      \<and> activation_notes k ?cycle = activation_notes k w"
    using run_blocks_failed [OF alert_blocks_failed [OF assms(3)], of now s w] run by simp
  have others: "\<forall>(k', qname', answer', detect', prefix') \<in> set (alert_blocks c).
      k' \<noteq> k \<and> is_alert_enabled s k' \<longrightarrow>
      kind_view (server_id s) k' ?cycle =
      kind_view (server_id s) k'
        (case answer' of
           Inl e \<Rightarrow> w
         | Inr status \<Rightarrow>
             (case (if status \<noteq> [] \<and> detect' status
                    then activate_alert now s k' (prefix' @ [CHR 0x0A] @ status) w
                    else clear_alert_if_active now s k' ''auto'' w) of
                Inl e \<Rightarrow> w
              | Inr w' \<Rightarrow> w'))"
  proof (intro ballI, clarify)
    fix k' qname' answer' detect' prefix'
    assume b: "(k', qname', answer', detect', prefix') \<in> set (alert_blocks c)"
      and en: "is_alert_enabled s k'"
    from assms(4) en b
    show "kind_view (server_id s) k' ?cycle =
      kind_view (server_id s) k'
        (case answer' of
           Inl e \<Rightarrow> w
         | Inr status \<Rightarrow>
             (case (if status \<noteq> [] \<and> detect' status
                    then activate_alert now s k' (prefix' @ [CHR 0x0A] @ status) w
                    else clear_alert_if_active now s k' ''auto'' w) of
                Inl e \<Rightarrow> w
              | Inr w' \<Rightarrow> w'))"
      by (rule check_alerts_view)
  qed
  have q: "queries ?cycle
      = queries w @ map snd (filter (\<lambda>(k', m'). is_alert_enabled s k') check_kinds)"
    unfolding run run_blocks_queries by (simp add: alert_blocks_def check_kinds_def)
  have "(k, qname) \<in> set check_kinds"
  proof -
    from assms(1) have "(\<lambda>b. (fst b, fst (snd b))) (k, qname, answer, detect, prefix)
        \<in> set (map (\<lambda>b. (fst b, fst (snd b))) (alert_blocks c))"
      unfolding set_map by (rule imageI)
    then show ?thesis by (simp add: alert_blocks_check_kinds)
  qed
  then have "(k, qname) \<in> set (filter (\<lambda>(k', m'). is_alert_enabled s k') check_kinds)"
    using assms(2) by simp
  then have "qname \<in> snd ` set (filter (\<lambda>(k', m'). is_alert_enabled s k') check_kinds)"
    by (rule rev_image_eqI) simp
  then have mem: "qname \<in> set (queries ?cycle)"
    unfolding q by simp
  have poll: "\<forall>to_float w0 w1.
      unique_rows (alerts w0) \<and> poll_control to_float now s c w0 = (None, w1) \<longrightarrow>
      (\<exists>w2. poll_server to_float now s c w0 = Inr (s\<lparr>last_successful_poll := Some now\<rparr>, w2))"
    using poll_server_success by blast
  from failed raised absent no_alert others q mem poll show ?thesis by blast
qed

theorem failed_query_swallowed_witness:
  "(''memory_errors'', ''query_memory_status'', query_memory_status client_memory_fails,
      (\<lambda>out. has_errors out sdr_indicators), ''Memory errors detected:'')
     \<in> set (alert_blocks client_memory_fails)
   \<and> is_alert_enabled server_one ''memory_errors''
   \<and> query_fails client_memory_fails ''memory_errors''
   \<and> \<not> no_channels server_one
   \<and> kind_view 1 ''memory_errors'' (check_alerts 5 server_one client_memory_fails world_memory_live)
       = kind_view 1 ''memory_errors'' world_memory_live
   \<and> kind_view 1 ''voltage_issues'' (check_alerts 5 server_one client_memory_fails world_memory_live)
       = ([\<lparr>alert_server_id = 1, alert_type = ''voltage_issues'',
             message = ''Voltage issues detected:'' @ [CHR 0x0A]
                         @ ''12V | 30h | cr | 7.18 | 9.24 Volts'',
             first_triggered_at = 5, last_updated_at = 5,
             cleared_at = None, cleared_by = None\<rparr>],
          [\<lparr>note_server_id = 1, note_alert_type = ''voltage_issues'',
             note_message = ''Voltage issues detected:'' @ [CHR 0x0A]
                              @ ''12V | 30h | cr | 7.18 | 9.24 Volts'',
             note_is_cleared = False, note_targets = [7]\<rparr>])
   \<and> queries (check_alerts 5 server_one client_memory_fails world_memory_live)
       = [''query_memory_status'', ''query_power_supply_status'', ''query_chassis_intrusion'',
          ''query_voltage_status'', ''query_system_events'']
   \<and> (\<exists>w2. poll_server decimal_float 5 server_one client_memory_fails world_memory_live
              = Inr (server_one\<lparr>last_successful_poll := Some 5\<rparr>, w2))"
proof -
  let ?c = "client_memory_fails"
  let ?w = "world_memory_live"
  have h1: "(''memory_errors'', ''query_memory_status'', query_memory_status ?c,
      (\<lambda>out. has_errors out sdr_indicators), ''Memory errors detected:'') \<in> set (alert_blocks ?c)"
    by (simp add: alert_blocks_def)
  have h2: "is_alert_enabled server_one k" for k
    by (simp add: is_alert_enabled_def server_one_def)
  have h3: "query_fails ?c ''memory_errors''"
    by (simp add: query_fails_def client_memory_fails_def)
  have h4: "\<not> no_channels server_one"
    by (simp add: no_channels_def server_one_def)
  have sid: "server_id server_one = 1" by (simp add: server_one_def)
  note sw = failed_query_swallowed [OF h1 h2 h3 h4, of 5 ?w, unfolded sid]
  note sw2 = sw [THEN conjunct2, THEN conjunct1]
  note sw6 = sw [THEN conjunct2, THEN conjunct2, THEN conjunct2, THEN conjunct2, THEN conjunct2,
      THEN conjunct1]
  note sw7 = sw [THEN conjunct2, THEN conjunct2, THEN conjunct2, THEN conjunct2, THEN conjunct2,
      THEN conjunct2, THEN conjunct1]
  note sw9 = sw [THEN conjunct2, THEN conjunct2, THEN conjunct2, THEN conjunct2, THEN conjunct2,
      THEN conjunct2, THEN conjunct2, THEN conjunct2]
  have raised: "isl (query_memory_status ?c)"
    by (simp add: query_memory_status_def or_empty_def client_memory_fails_def)
  from sw2 raised have own: "kind_view 1 ''memory_errors'' (check_alerts 5 server_one ?c ?w)
      = kind_view 1 ''memory_errors'' ?w"
    by (rule mp)
  have vb: "(''voltage_issues'', ''query_voltage_status'', query_voltage_status ?c,
      (\<lambda>out. has_errors out sdr_indicators), ''Voltage issues detected:'') \<in> set (alert_blocks ?c)"
    by (simp add: alert_blocks_def)
  have ne: "''voltage_issues'' \<noteq> ''memory_errors''" by simp
  from bspec [OF sw6 vb] ne h2 [of "''voltage_issues''"]
  have "kind_view 1 ''voltage_issues'' (check_alerts 5 server_one ?c ?w) =
      kind_view 1 ''voltage_issues''
        (case query_voltage_status ?c of
           Inl e \<Rightarrow> ?w
         | Inr status \<Rightarrow>
             (case (if status \<noteq> [] \<and> has_errors status sdr_indicators
                    then activate_alert 5 server_one ''voltage_issues''
                           (''Voltage issues detected:'' @ [CHR 0x0A] @ status) ?w
                    else clear_alert_if_active 5 server_one ''voltage_issues'' ''auto'' ?w) of
                Inl e \<Rightarrow> ?w
              | Inr w' \<Rightarrow> w'))"
    by (simp only: case_prod_conv simp_thms)
  also have "\<dots> =
      ([\<lparr>alert_server_id = 1, alert_type = ''voltage_issues'',
             message = ''Voltage issues detected:'' @ [CHR 0x0A]
                         @ ''12V | 30h | cr | 7.18 | 9.24 Volts'',
             first_triggered_at = 5, last_updated_at = 5,
             cleared_at = None, cleared_by = None\<rparr>],
          [\<lparr>note_server_id = 1, note_alert_type = ''voltage_issues'',
             note_message = ''Voltage issues detected:'' @ [CHR 0x0A]
                              @ ''12V | 30h | cr | 7.18 | 9.24 Volts'',
             note_is_cleared = False, note_targets = [7]\<rparr>])"
    by code_simp
  finally have other: "kind_view 1 ''voltage_issues'' (check_alerts 5 server_one ?c ?w) =
      ([\<lparr>alert_server_id = 1, alert_type = ''voltage_issues'',
             message = ''Voltage issues detected:'' @ [CHR 0x0A]
                         @ ''12V | 30h | cr | 7.18 | 9.24 Volts'',
             first_triggered_at = 5, last_updated_at = 5,
             cleared_at = None, cleared_by = None\<rparr>],
          [\<lparr>note_server_id = 1, note_alert_type = ''voltage_issues'',
             note_message = ''Voltage issues detected:'' @ [CHR 0x0A]
                              @ ''12V | 30h | cr | 7.18 | 9.24 Volts'',
             note_is_cleared = False, note_targets = [7]\<rparr>])" .
  have qe: "queries ?w = []" by (simp add: world_memory_live_def world_one_def empty_world_def)
  have qs: "queries (check_alerts 5 server_one ?c ?w)
       = [''query_memory_status'', ''query_power_supply_status'', ''query_chassis_intrusion'',
          ''query_voltage_status'', ''query_system_events'']"
    unfolding sw7 by (simp add: qe h2 check_kinds_def)
  have u: "unique_rows (alerts ?w)"
    by (simp add: unique_rows_def world_memory_live_def)
  have pc: "poll_control decimal_float 5 server_one ?c ?w
      = (None, ?w\<lparr>queries := [''query_temperatures'', ''query_fans'']\<rparr>)"
    by code_simp
  from sw9 [THEN spec, THEN spec, THEN spec, THEN mp, OF conjI, OF u pc]
  have poll: "\<exists>w2. poll_server decimal_float 5 server_one ?c ?w
      = Inr (server_one\<lparr>last_successful_poll := Some 5\<rparr>, w2)" .
  show ?thesis
    apply (intro conjI)
           apply (fact h1)
          apply (fact h2)
         apply (fact h3)
        apply (fact h4)
       apply (fact own)
      apply (fact other)
     apply (fact qs)
    apply (fact poll)
    done
qed

section \<open>Staleness monitor\<close>








lemma activate_alert_after_clear_raises:
  assumes "live_alerts w (server_id s) k = []" and "has_cleared_row (alerts w) (server_id s) k"
  shows "activate_alert now s k msg w = Inl IntegrityError"
proof -
  from assms(2) have "violates_unique (alerts w) (server_id s) k"
    by (auto simp: has_cleared_row_def violates_unique_def)
  with assms(1) show ?thesis by (simp add: activate_alert_def scalar_one_or_none_def)
qed



lemma check_offline_server_after_clear_raises:
  assumes "is_alert_enabled s ''connectivity''" and "\<not> no_channels s"
    and "threshold_timedelta s \<le> now - last_seen s"
    and "live_alerts w (server_id s) ''connectivity'' = []"
    and "has_cleared_row (alerts w) (server_id s) ''connectivity''"
  shows "check_offline_server now s w = Inl IntegrityError"
  using assms activate_alert_after_clear_raises [OF assms(4,5)]
  by (cases "last_successful_poll s") (simp_all add: check_offline_server_def last_seen_def)




end
